theory Spec2Isabelle
  imports Main "HOL-Library.Char_ord" "HOL-Library.List_Lexorder" "HOL-Library.Option_ord"
    "HOL-Library.Sublist" "HOL-Library.AList"
begin

section \<open>Errors raised by the prediction script\<close>

datatype error =
    ValueError string
  | NotImplementedError
  | KeyError string
  | IndexError
  | ParserError
  | OSError string

section \<open>Python string operations used by the script\<close>

text \<open>\<^verbatim>\<open>s.split(sep)\<close> for a one-character separator: the pieces between the
  occurrences of the separator, always at least one piece.\<close>

fun str_split :: "char \<Rightarrow> string \<Rightarrow> string list" where
  "str_split sep [] = [[]]"
| "str_split sep (c # cs) =
     (if c = sep then [] # str_split sep cs
      else (case str_split sep cs of
              [] \<Rightarrow> [[c]]
            | p # ps \<Rightarrow> (c # p) # ps))"

text \<open>\<^verbatim>\<open>sep.join(parts)\<close>.\<close>

fun str_join :: "string \<Rightarrow> string list \<Rightarrow> string" where
  "str_join sep [] = []"
| "str_join sep [p] = p"
| "str_join sep (p # q # ps) = p @ sep @ str_join sep (q # ps)"

text \<open>\<^verbatim>\<open>os.path.basename(p)\<close>: what follows the last slash.\<close>

definition basename :: "string \<Rightarrow> string" where
  "basename p = rev (takeWhile (\<lambda>c. c \<noteq> CHR ''/'') (rev p))"

section \<open>Model reference parser\<close>

record model_def =
  path :: string
  options :: "string list"
  name :: string

definition parse_model :: "string \<Rightarrow> error + model_def" where
  "parse_model model_str =
     (let parts = str_split CHR '':'' model_str in
      if length parts > 2 then Inl (ValueError ''Multiple \":\" in specified model'')
      else
        let name = basename (parts ! 0);
            options = (if length parts = 2 then str_split CHR '','' (parts ! 1) else [])
        in Inr \<lparr>path = parts ! 0, options = options,
                name = str_join ''.'' ([name] @ options)\<rparr>)"


section \<open>Paths\<close>

text \<open>\<^verbatim>\<open>os.path.join(a, b)\<close> (POSIX): an absolute second part replaces the first;
  otherwise the parts are put together with one slash between them.\<close>

definition path_join :: "string \<Rightarrow> string \<Rightarrow> string" where
  "path_join a b =
     (if b \<noteq> [] \<and> hd b = CHR ''/'' then b
      else if a = [] \<or> last a = CHR ''/'' then a @ b
      else a @ ''/'' @ b)"

text \<open>The component loop of \<^verbatim>\<open>os.path.normpath\<close> on an absolute path: empty
  components and \<^verbatim>\<open>.\<close> are skipped, \<^verbatim>\<open>..\<close> removes the component before it
  (and is dropped at the root), everything else is appended.\<close>

fun norm_parts :: "string list \<Rightarrow> string list \<Rightarrow> string list" where
  "norm_parts acc [] = acc"
| "norm_parts acc (c # cs) =
     (if c = [] \<or> c = ''.'' then norm_parts acc cs
      else if c = ''..'' then norm_parts (butlast acc) cs
      else norm_parts (acc @ [c]) cs)"

text \<open>The non-empty components of \<^verbatim>\<open>os.path.abspath(p)\<close>, for the absolute working
  directory \<open>wd\<close>. A file or directory is identified by this list, so two spellings of
  one path name the same file.\<close>

definition abs_parts :: "string \<Rightarrow> string \<Rightarrow> string list" where
  "abs_parts wd p = norm_parts [] (str_split CHR ''/'' (path_join wd p))"

fun common_prefix :: "'a list \<Rightarrow> 'a list \<Rightarrow> 'a list" where
  "common_prefix (x # xs) (y # ys) = (if x = y then x # common_prefix xs ys else [])"
| "common_prefix _ _ = []"

text \<open>\<^verbatim>\<open>os.path.relpath(p, start)\<close>.\<close>

definition relpath :: "string \<Rightarrow> string \<Rightarrow> string \<Rightarrow> error + string" where
  "relpath wd p start =
     (if p = [] then Inl (ValueError ''no path specified'')
      else
        let start_list = abs_parts wd start;
            path_list = abs_parts wd p;
            i = length (common_prefix start_list path_list);
            rel_list = replicate (length start_list - i) ''..'' @ drop i path_list
        in if rel_list = [] then Inr ''.'' else Inr (str_join ''/'' rel_list))"

text \<open>A base name: one path component that names neither the directory itself nor its
  parent.\<close>

definition simple_name :: "string \<Rightarrow> bool" where
  "simple_name nm = (nm \<noteq> [] \<and> CHR ''/'' \<notin> set nm \<and> nm \<noteq> ''.'' \<and> nm \<noteq> ''..'')"

section \<open>Decimal numerals\<close>

definition isdigit :: "string \<Rightarrow> bool" where
  "isdigit s = (s \<noteq> [] \<and> (\<forall>c \<in> set s. c \<in> set ''0123456789''))"

definition digit_val :: "char \<Rightarrow> nat" where
  "digit_val c = of_char c - 48"

definition nat_of_digits :: "string \<Rightarrow> nat" where
  "nat_of_digits s = foldl (\<lambda>n c. 10 * n + digit_val c) 0 s"

text \<open>\<^verbatim>\<open>int(s)\<close> on an optional minus sign followed by decimal digits; any other
  string is rejected here (Python also accepts a plus sign, blanks and underscores,
  which the script never produces).\<close>

definition py_int :: "string \<Rightarrow> error + int" where
  "py_int s =
     (if isdigit s then Inr (int (nat_of_digits s))
      else if s \<noteq> [] \<and> hd s = CHR ''-'' \<and> isdigit (tl s) then Inr (- int (nat_of_digits (tl s)))
      else Inl (ValueError ''invalid literal for int()''))"

fun digits_of_nat :: "nat \<Rightarrow> string" where
  "digits_of_nat n =
     (if n < 10 then [''0123456789'' ! n]
      else digits_of_nat (n div 10) @ [''0123456789'' ! (n mod 10)])"

declare digits_of_nat.simps [simp del]

text \<open>\<^verbatim>\<open>str(i)\<close> for an integer.\<close>

definition py_str :: "int \<Rightarrow> string" where
  "py_str i = (if i < 0 then CHR ''-'' # digits_of_nat (nat (- i)) else digits_of_nat (nat i))"


section \<open>Script arguments\<close>

record args =
  path_model_dir :: "string list"
  add_sigmoid :: bool
  dataset :: "string option"
  dataset_kwargs :: "(string \<times> string) list"
  gpu_ids :: int
  idx_sel :: "int list option"
  metric :: string
  n_images :: int
  no_prediction :: bool
  no_signal :: bool
  no_target :: bool
  path_save_dir :: string
  path_tif :: "string option"

section \<open>Result tables\<close>

text \<open>A data frame: its rows in order, each a label with its cells, where \<open>None\<close> is a
  missing value (NaN), and its column labels in order. A label may repeat.\<close>

record ('i, 'c) frame =
  rows :: "('i \<times> (string \<Rightarrow> 'c option)) list"
  columns :: "string list"

text \<open>\<^verbatim>\<open>df.index\<close>, and the cell \<^verbatim>\<open>df.loc[i, c]\<close> of a label (of its first row,
  should the label repeat).\<close>

definition index :: "('i, 'c) frame \<Rightarrow> 'i list" where
  "index df = map fst (rows df)"

definition cell :: "('i, 'c) frame \<Rightarrow> 'i \<Rightarrow> string \<Rightarrow> 'c option" where
  "cell df i c = (case map_of (rows df) i of None \<Rightarrow> None | Some r \<Rightarrow> r c)"

text \<open>One row filled from another: a cell that is not missing is kept, any other cell is
  taken from the second row.\<close>

definition first_notna ::
  "(string \<Rightarrow> 'c option) \<Rightarrow> (string \<Rightarrow> 'c option) \<Rightarrow> string \<Rightarrow> 'c option" where
  "first_notna r s = (\<lambda>c. case r c of Some v \<Rightarrow> Some v | None \<Rightarrow> s c)"

text \<open>The rows of one label, in order.\<close>

definition rows_at :: "'i \<Rightarrow> ('i \<times> 'r) list \<Rightarrow> 'r list" where
  "rows_at l rs = map snd (filter (\<lambda>p. fst p = l) rs)"

text \<open>The rows of one label after the outer join of two frames: a label of one frame
  alone keeps its rows; a label of both has one row for every pair of its rows, the
  first frame's row filled from the second's.\<close>

definition join_rows ::
  "(string \<Rightarrow> 'c option) list \<Rightarrow> (string \<Rightarrow> 'c option) list \<Rightarrow> (string \<Rightarrow> 'c option) list" where
  "join_rows ls rs =
     (if ls = [] then rs
      else if rs = [] then ls
      else concat (map (\<lambda>r. map (first_notna r) rs) ls))"

text \<open>\<^verbatim>\<open>df.combine_first(other)\<close>: the frames are aligned on the union of their row
  labels and of their column labels, and every missing cell of \<open>df\<close> is taken from
  \<open>other\<close>. Frames with equal indexes are aligned row by row. Otherwise the indexes are
  joined: the labels of both in ascending order, a repeated label with the rows of
  \<open>join_rows\<close>.\<close>

definition combine_first ::
  "('i::linorder, 'c) frame \<Rightarrow> ('i, 'c) frame \<Rightarrow> ('i, 'c) frame" where
  "combine_first df other =
     \<lparr>rows =
        (if index df = index other
         then map (\<lambda>(p, q). (fst p, first_notna (snd p) (snd q))) (zip (rows df) (rows other))
         else concat (map (\<lambda>l. map (Pair l) (join_rows (rows_at l (rows df)) (rows_at l (rows other))))
                        (sort (remdups (index df @ index other))))),
      columns = remdups (columns df @ columns other)\<rparr>"

text \<open>\<^verbatim>\<open>df.sort_index(axis=1)\<close>: the column labels in ascending order (strings
  compare lexicographically by character code); the cells stay with their labels.\<close>

definition sort_index_axis1 :: "('i, 'c) frame \<Rightarrow> ('i, 'c) frame" where
  "sort_index_axis1 df = df\<lparr>columns := sort (columns df)\<rparr>"

section \<open>The file system\<close>

datatype ('i, 'c, 'a) content =
    Tif 'a
  | Csv "('i, 'c) frame"
  | Json args

text \<open>The working directory, the regular files with their contents and the directories,
  both keyed by absolute normalised components. The root always exists. A table file
  holds the frame that was written to it: writing a frame with \<^verbatim>\<open>to_csv\<close> and reading
  it back with its first column as the index is taken to return that frame.\<close>

record ('i, 'c, 'a) world =
  cwd :: string
  files :: "string list \<rightharpoonup> ('i, 'c, 'a) content"
  dirs :: "string list set"

definition resolve :: "('i, 'c, 'a) world \<Rightarrow> string \<Rightarrow> string list" where
  "resolve w p = abs_parts (cwd w) p"

definition is_file :: "('i, 'c, 'a) world \<Rightarrow> string list \<Rightarrow> bool" where
  "is_file w q = (files w q \<noteq> None)"

definition is_dir :: "('i, 'c, 'a) world \<Rightarrow> string list \<Rightarrow> bool" where
  "is_dir w q = (q = [] \<or> q \<in> dirs w)"

text \<open>\<^verbatim>\<open>os.path.exists(p)\<close>.\<close>

definition path_exists :: "('i, 'c, 'a) world \<Rightarrow> string \<Rightarrow> bool" where
  "path_exists w p = (is_file w (resolve w p) \<or> is_dir w (resolve w p))"

text \<open>\<^verbatim>\<open>os.makedirs(p)\<close>: fails when the path exists or when a regular file is in the
  way; otherwise creates the directory and every missing ancestor.\<close>

definition makedirs ::
  "string \<Rightarrow> ('i, 'c, 'a) world \<Rightarrow> error + ('i, 'c, 'a) world" where
  "makedirs p w =
     (let q = resolve w p in
      if is_file w q \<or> is_dir w q then Inl (OSError ''File exists'')
      else if \<exists>r \<in> set (prefixes q). is_file w r then Inl (OSError ''Not a directory'')
      else Inr (w\<lparr>dirs := dirs w \<union> set (prefixes q)\<rparr>))"

text \<open>Opening a path for writing and storing a content there: fails on a directory and
  when the parent directory is missing; otherwise creates or replaces the file.\<close>

definition write_file ::
  "string \<Rightarrow> ('i, 'c, 'a) content \<Rightarrow> ('i, 'c, 'a) world \<Rightarrow> error + ('i, 'c, 'a) world" where
  "write_file p c w =
     (let q = resolve w p in
      if is_dir w q then Inl (OSError ''Is a directory'')
      else if \<not> is_dir w (butlast q) then Inl (OSError ''No such file or directory'')
      else Inr (w\<lparr>files := (files w)(q \<mapsto> c)\<rparr>))"

text \<open>\<^verbatim>\<open>tifffile.imsave(p, ar, compress=2)\<close>.\<close>

definition imsave ::
  "string \<Rightarrow> 'a \<Rightarrow> ('i, 'c, 'a) world \<Rightarrow> error + ('i, 'c, 'a) world" where
  "imsave p ar w = write_file p (Tif ar) w"

text \<open>\<^verbatim>\<open>df.to_csv(p)\<close>.\<close>

definition to_csv ::
  "('i, 'c) frame \<Rightarrow> string \<Rightarrow> ('i, 'c, 'a) world \<Rightarrow> error + ('i, 'c, 'a) world" where
  "to_csv df p w = write_file p (Csv df) w"

text \<open>Lines 105 to 107 of the script: \<^verbatim>\<open>pd.read_csv(p)\<close> followed by
  \<^verbatim>\<open>set_index\<close> on the first column of what was read.\<close>

definition read_csv ::
  "string \<Rightarrow> ('i, 'c, 'a) world \<Rightarrow> error + ('i, 'c) frame" where
  "read_csv p w =
     (case files w (resolve w p) of
        Some (Csv df) \<Rightarrow> Inr df
      | Some _ \<Rightarrow> Inl ParserError
      | None \<Rightarrow> Inl (OSError ''No such file or directory''))"

section \<open>Image persister\<close>

definition save_tif ::
  "string \<Rightarrow> 'a \<Rightarrow> string \<Rightarrow> ('i, 'c, 'a) world \<Rightarrow> error + (string \<times> ('i, 'c, 'a) world)" where
  "save_tif fname ar path_root w =
     (let path_tif_dir = path_join path_root ''tifs'' in
      case (if \<not> path_exists w path_tif_dir then makedirs path_tif_dir w else Inr w) of
        Inl e \<Rightarrow> Inl e
      | Inr w1 \<Rightarrow>
          let path_save = path_join path_tif_dir fname in
          (case imsave path_save ar w1 of
             Inl e \<Rightarrow> Inl e
           | Inr w2 \<Rightarrow>
               (case relpath (cwd w2) path_save path_root of
                  Inl e \<Rightarrow> Inl e
                | Inr rel \<Rightarrow> Inr (rel, w2))))"

section \<open>Result table accumulator\<close>

text \<open>Modelled from the spec: \<^verbatim>\<open>retry_if_oserror\<close> of \<^verbatim>\<open>fnet.utils.general_utils\<close>
  is not among the sources. The spec has the write retried a bounded number of times on
  an OS-level failure before the failure becomes fatal; the bound is the parameter
  \<open>n\<close>.\<close>

fun retry_if_oserror :: "nat \<Rightarrow> ('w \<Rightarrow> error + 'w) \<Rightarrow> 'w \<Rightarrow> error + 'w" where
  "retry_if_oserror 0 f w = f w"
| "retry_if_oserror (Suc n) f w =
     (case f w of
        Inl (OSError m) \<Rightarrow> retry_if_oserror n f w
      | r \<Rightarrow> r)"

definition save_csv ::
  "nat \<Rightarrow> string \<Rightarrow> ('i::linorder, 'c) frame \<Rightarrow> ('i, 'c, 'a) world \<Rightarrow>
   error + ('i, 'c, 'a) world" where
  "save_csv retries path_csv df w =
     (case (if path_exists w path_csv
            then (case read_csv path_csv w of
                    Inl e \<Rightarrow> Inl e
                  | Inr df_old \<Rightarrow> Inr (combine_first df df_old))
            else Inr df) of
        Inl e \<Rightarrow> Inl e
      | Inr df1 \<Rightarrow>
          let df2 = sort_index_axis1 df1 in
          retry_if_oserror retries (to_csv df2 path_csv) w)"

section \<open>Run configuration snapshotter\<close>

text \<open>The \<^verbatim>\<open>while\<close> loop of \<^verbatim>\<open>save_args_as_json\<close> (lines 130 to 137); the result
  \<open>None\<close> stands for a loop that never ends.\<close>

partial_function (option) uniquify_path ::
  "('i, 'c, 'a) world \<Rightarrow> string \<Rightarrow> string \<Rightarrow> (error + string) option" where
  "uniquify_path w save_dir path_json =
     (if path_exists w path_json then
        (let parts = str_split CHR ''.'' path_json in
         if length parts < 2 then Some (Inl IndexError)
         else
           let number = parts ! (length parts - 2);
               number = (if \<not> isdigit number then ''-1'' else number)
           in (case py_int number of
                 Inl e \<Rightarrow> Some (Inl e)
               | Inr k \<Rightarrow>
                   uniquify_path w save_dir
                     (path_join save_dir
                        (str_join ''.'' [''predict_options'', py_str (k + 1), ''json'']))))
      else Some (Inr path_json))"

text \<open>\<^verbatim>\<open>json.dump(vars(args), fo, indent=4, sort_keys=True)\<close> into the file opened for
  writing stores the arguments there.\<close>

definition save_args_as_json ::
  "string \<Rightarrow> args \<Rightarrow> ('i, 'c, 'a) world \<Rightarrow> (error + ('i, 'c, 'a) world) option" where
  "save_args_as_json save_dir a w =
     (case uniquify_path w save_dir (path_join save_dir ''predict_options.json'') of
        None \<Rightarrow> None
      | Some (Inl e) \<Rightarrow> Some (Inl e)
      | Some (Inr path_json) \<Rightarrow> Some (write_file path_json (Json a) w))"

text \<open>The path tried first (line 129) and the path with the number \<open>k\<close> (lines 135
  to 137).\<close>

definition default_json :: "string \<Rightarrow> string" where
  "default_json save_dir = path_join save_dir ''predict_options.json''"

definition numbered_json :: "string \<Rightarrow> nat \<Rightarrow> string" where
  "numbered_json save_dir k =
     path_join save_dir (str_join ''.'' [''predict_options'', py_str (int k), ''json''])"

section \<open>Collaborators outside the script\<close>

text \<open>A sample source: the labels of its table in order, the name of that index if it
  has one, and the lookup of a sample (signal and optional target) by label.\<close>

record 't dataset =
  df_index :: "int list"
  df_index_name :: "string option"
  loc :: "int \<Rightarrow> ('t \<times> 't option) option"

text \<open>The values of a row: a sample index, a path or a metric value. Values of one
  kind are ordered as Python orders them; between kinds, which Python does not compare,
  indices come first and metric values last.\<close>

datatype 'v cellval = IdxVal int | PathVal string | EvalVal 'v

instantiation cellval :: (linorder) linorder
begin

fun less_eq_cellval :: "'a cellval \<Rightarrow> 'a cellval \<Rightarrow> bool" where
  "less_eq_cellval (IdxVal i) (IdxVal j) = (i \<le> j)"
| "less_eq_cellval (IdxVal i) (PathVal q) = True"
| "less_eq_cellval (IdxVal i) (EvalVal y) = True"
| "less_eq_cellval (PathVal p) (IdxVal j) = False"
| "less_eq_cellval (PathVal p) (PathVal q) = (p \<le> q)"
| "less_eq_cellval (PathVal p) (EvalVal y) = True"
| "less_eq_cellval (EvalVal x) (IdxVal j) = False"
| "less_eq_cellval (EvalVal x) (PathVal q) = False"
| "less_eq_cellval (EvalVal x) (EvalVal y) = (x \<le> y)"

definition less_cellval :: "'a cellval \<Rightarrow> 'a cellval \<Rightarrow> bool" where
  "less_cellval x y = (x \<le> y \<and> \<not> y \<le> x)"

instance
proof
  fix x y z :: "'a cellval"
  show "(x < y) = (x \<le> y \<and> \<not> y \<le> x)"
    by (simp add: less_cellval_def)
  show "x \<le> x"
    by (cases x) simp_all
  show "x \<le> y \<Longrightarrow> y \<le> z \<Longrightarrow> x \<le> z"
    by (cases x; cases y; cases z) auto
  show "x \<le> y \<Longrightarrow> y \<le> x \<Longrightarrow> x = y"
    by (cases x; cases y) auto
  show "x \<le> y \<or> y \<le> x"
    by (cases x; cases y) auto
qed

end

type_synonym 'v entry = "(string \<times> 'v cellval) list"

text \<open>The file system of a run: the labels of a result table are the values of the
  index column, missing (\<open>None\<close>) where a row has none.\<close>

type_synonym ('v, 'a) fsys = "('v cellval option, 'v cellval, 'a) world"

text \<open>What the script imports from the rest of the package and from its libraries, taken
  as parameters: the resolution of a dataset name (\<open>None\<close> when the object is not
  callable) and of a metric name by \<^verbatim>\<open>str_to_object\<close>, the directory listing
  \<^verbatim>\<open>files_from_dir\<close>, the construction of a \<^verbatim>\<open>TiffDataset\<close> from signal paths, model
  loading and prediction, the sigmoid, the leading dimension of a tensor and the array at
  one position of it, and the bound of \<^verbatim>\<open>retry_if_oserror\<close>. Failures inside these
  collaborators are not modelled.\<close>

record ('t, 'v, 'm, 'a) env =
  dataset_object :: "string \<Rightarrow> ((string \<times> string) list \<Rightarrow> 't dataset) option"
  metric_object :: "string \<Rightarrow> 't option \<Rightarrow> 't \<Rightarrow> 'v"
  files_from_dir :: "('v, 'a) fsys \<Rightarrow> string \<Rightarrow> string list"
  TiffDataset :: "string list \<Rightarrow> 't dataset"
  load_model :: "string \<Rightarrow> int \<Rightarrow> 'm"
  predict_piecewise :: "'m \<Rightarrow> 't \<Rightarrow> bool \<Rightarrow> 't"
  sigmoid :: "'t \<Rightarrow> 't"
  size0 :: "'t \<Rightarrow> nat"
  numpy_at :: "'t \<Rightarrow> nat \<Rightarrow> 'a"
  retries :: nat

section \<open>Dataset resolver\<close>

definition get_dataset ::
  "('t, 'v, 'm, 'a) env \<Rightarrow> args \<Rightarrow> ('v, 'a) fsys \<Rightarrow> error + 't dataset" where
  "get_dataset env a w =
     (if (of_bool (dataset a \<noteq> None) + of_bool (path_tif a \<noteq> None) :: nat) \<noteq> 1
      then Inl (ValueError ''Must specify one input source type'')
      else
        (case dataset a of
           Some d \<Rightarrow>
             (case dataset_object env d of
                None \<Rightarrow> Inl (ValueError (d @ '' must be callable''))
              | Some ds_fn \<Rightarrow> Inr (ds_fn (dataset_kwargs a)))
         | None \<Rightarrow>
             (case path_tif a of
                Some p \<Rightarrow>
                  if \<not> path_exists w p then Inl (ValueError (''Path does not exists: '' @ p))
                  else
                    let paths_tif = (if is_dir w (resolve w p) then files_from_dir env w p else [p])
                    in Inr (TiffDataset env paths_tif)
              | None \<Rightarrow> Inl NotImplementedError)))"

section \<open>Inference orchestrator\<close>

text \<open>\<^verbatim>\<open>pd.DataFrame(entries).set_index(index_name)\<close>: one row for every entry, in
  order, labelled with the entry's value under the index key; the columns are the other
  keys in order of first appearance, and a cell is the entry's value under that key.
  \<^verbatim>\<open>set_index\<close> raises \<^verbatim>\<open>KeyError\<close> when no entry has the index key.\<close>

definition DataFrame_set_index ::
  "'v entry list \<Rightarrow> string \<Rightarrow> error + ('v cellval option, 'v cellval) frame" where
  "DataFrame_set_index es index_name =
     (if index_name \<notin> set (concat (map (map fst) es)) then Inl (KeyError index_name)
      else Inr
        \<lparr>rows = map (\<lambda>e. (map_of e index_name,
                           (\<lambda>k. if k = index_name then None else map_of e k))) es,
         columns = filter (\<lambda>k. k \<noteq> index_name) (remdups (concat (map (map fst) es)))\<rparr>)"

text \<open>Python's \<^verbatim>\<open>xs[:stop]\<close>.\<close>

definition slice_to :: "'x list \<Rightarrow> int option \<Rightarrow> 'x list" where
  "slice_to xs stop =
     (case stop of
        None \<Rightarrow> xs
      | Some n \<Rightarrow> if 0 \<le> n then take (nat n) xs else take (length xs - nat (- n)) xs)"

text \<open>Lines 173 to 175: the indices the loop runs over.\<close>

definition sample_indices :: "args \<Rightarrow> 't dataset \<Rightarrow> int list" where
  "sample_indices a ds =
     slice_to (case idx_sel a of Some sel \<Rightarrow> sel | None \<Rightarrow> df_index ds)
       (if n_images a > 0 then Some (n_images a) else None)"

text \<open>Lines 206 to 211: one image per channel of the prediction.\<close>

fun save_channels ::
  "('t, 'v, 'm, 'a) env \<Rightarrow> args \<Rightarrow> int \<Rightarrow> string \<Rightarrow> 't \<Rightarrow> nat list \<Rightarrow>
   'v entry \<Rightarrow> ('v, 'a) fsys \<Rightarrow> error + ('v entry \<times> ('v, 'a) fsys)" where
  "save_channels env a idx mname prediction [] entry w = Inr (entry, w)"
| "save_channels env a idx mname prediction (idx_c # cs) entry w =
     (let tag = ''prediction_c'' @ py_str (int idx_c) @ ''.'' @ mname;
          pred_c = numpy_at env prediction idx_c
      in case save_tif (py_str idx @ ''_'' @ tag @ ''.tif'') pred_c (path_save_dir a) w of
           Inl e \<Rightarrow> Inl e
         | Inr (rel, w') \<Rightarrow>
             save_channels env a idx mname prediction cs
               (AList.update (''path_'' @ tag) (PathVal rel) entry) w')"

text \<open>Lines 191 to 211: the loop over the model references. The loaded model and its
  parsed reference are kept from one turn to the next.\<close>

fun run_models ::
  "('t, 'v, 'm, 'a) env \<Rightarrow> args \<Rightarrow> ('t option \<Rightarrow> 't \<Rightarrow> 'v) \<Rightarrow> int \<Rightarrow> 't \<Rightarrow> 't option \<Rightarrow>
   string list \<Rightarrow> ('m \<times> model_def) option \<Rightarrow> 'v entry \<Rightarrow> ('v, 'a) fsys \<Rightarrow>
   error + (('m \<times> model_def) option \<times> 'v entry \<times> ('v, 'a) fsys)" where
  "run_models env a metric_fn idx signal target [] model entry w = Inr (model, entry, w)"
| "run_models env a metric_fn idx signal target (pmd # rest) model entry w =
     (case (case model of
              Some loaded \<Rightarrow>
                if length (path_model_dir a) > 1
                then (case parse_model pmd of
                        Inl e \<Rightarrow> Inl e
                      | Inr md \<Rightarrow> Inr (load_model env (path md) (gpu_ids a), md))
                else Inr loaded
            | None \<Rightarrow>
                (case parse_model pmd of
                   Inl e \<Rightarrow> Inl e
                 | Inr md \<Rightarrow> Inr (load_model env (path md) (gpu_ids a), md))) of
        Inl e \<Rightarrow> Inl e
      | Inr (m, md) \<Rightarrow>
          let prediction = predict_piecewise env m signal (''no_tta'' \<notin> set (options md));
              prediction = (if add_sigmoid a then sigmoid env prediction else prediction);
              evaluation = metric_fn target prediction;
              entry1 = AList.update (metric a @ ''.'' @ name md) (EvalVal evaluation) entry
          in (case (if \<not> no_prediction a
                    then save_channels env a idx (name md) prediction
                           [0..<size0 env prediction] entry1 w
                    else Inr (entry1, w)) of
                Inl e \<Rightarrow> Inl e
              | Inr (entry2, w') \<Rightarrow>
                  run_models env a metric_fn idx signal target rest (Some (m, md)) entry2 w'))"

text \<open>Lines 178 to 211: the row of one sample.\<close>

definition process_sample ::
  "('t, 'v, 'm, 'a) env \<Rightarrow> args \<Rightarrow> ('t option \<Rightarrow> 't \<Rightarrow> 'v) \<Rightarrow> string \<Rightarrow> 't dataset \<Rightarrow> int \<Rightarrow>
   ('m \<times> model_def) option \<Rightarrow> ('v, 'a) fsys \<Rightarrow>
   error + (('m \<times> model_def) option \<times> 'v entry \<times> ('v, 'a) fsys)" where
  "process_sample env a metric_fn index_name ds idx model w =
     (let entry = AList.update index_name (IdxVal idx) [] in
      case loc ds idx of
        None \<Rightarrow> Inl (KeyError (py_str idx))
      | Some (signal, target) \<Rightarrow>
          (case (if \<not> no_signal a
                 then (case save_tif (py_str idx @ ''_signal.tif'') (numpy_at env signal 0)
                              (path_save_dir a) w of
                         Inl e \<Rightarrow> Inl e
                       | Inr (rel, w') \<Rightarrow>
                           Inr (AList.update ''path_signal'' (PathVal rel) entry, w'))
                 else Inr (entry, w)) of
             Inl e \<Rightarrow> Inl e
           | Inr (entry1, w1) \<Rightarrow>
               (case (case target of
                        Some tg \<Rightarrow>
                          if \<not> no_target a
                          then (case save_tif (py_str idx @ ''_target.tif'') (numpy_at env tg 0)
                                       (path_save_dir a) w1 of
                                  Inl e \<Rightarrow> Inl e
                                | Inr (rel, w') \<Rightarrow>
                                    Inr (AList.update ''path_target'' (PathVal rel) entry1, w'))
                          else Inr (entry1, w1)
                      | None \<Rightarrow> Inr (entry1, w1)) of
                  Inl e \<Rightarrow> Inl e
                | Inr (entry2, w2) \<Rightarrow>
                    run_models env a metric_fn idx signal target (path_model_dir a)
                      model entry2 w2)))"

text \<open>The state of the loop of \<^verbatim>\<open>main\<close>: the file system, the rows so far and the
  loaded model. The field \<open>flushed\<close> is a history of the calls of \<^verbatim>\<open>save_csv\<close>: the
  1-based count of the sample after which the call was made and the rows passed to it.\<close>

record ('v, 'm, 'a) run =
  fs :: "('v, 'a) fsys"
  entries :: "'v entry list"
  model :: "('m \<times> model_def) option"
  flushed :: "(nat \<times> 'v entry list) list"

text \<open>Lines 176 to 217: the loop over \<^verbatim>\<open>enumerate(indices, 1)\<close>.\<close>

fun main_loop ::
  "('t, 'v::linorder, 'm, 'a) env \<Rightarrow> args \<Rightarrow> ('t option \<Rightarrow> 't \<Rightarrow> 'v) \<Rightarrow> string \<Rightarrow> 't dataset \<Rightarrow>
   int list \<Rightarrow> (nat \<times> int) list \<Rightarrow> ('v, 'm, 'a) run \<Rightarrow> error + ('v, 'm, 'a) run" where
  "main_loop env a metric_fn index_name ds indices [] st = Inr st"
| "main_loop env a metric_fn index_name ds indices ((count, idx) # rest) st =
     (case process_sample env a metric_fn index_name ds idx (model st) (fs st) of
        Inl e \<Rightarrow> Inl e
      | Inr (model', entry, w) \<Rightarrow>
          let entries' = entries st @ [entry] in
          if count mod 8 = 0 \<or> idx = last indices
          then (case DataFrame_set_index entries' index_name of
                  Inl e \<Rightarrow> Inl e
                | Inr df \<Rightarrow>
                    (case save_csv (retries env)
                            (path_join (path_save_dir a) ''predictions.csv'') df w of
                       Inl e \<Rightarrow> Inl e
                     | Inr w' \<Rightarrow>
                         main_loop env a metric_fn index_name ds indices rest
                           \<lparr>fs = w', entries = entries', model = model',
                            flushed = flushed st @ [(count, entries')]\<rparr>))
          else main_loop env a metric_fn index_name ds indices rest
                 \<lparr>fs = w, entries = entries', model = model', flushed = flushed st\<rparr>)"

text \<open>\<^verbatim>\<open>main\<close>, called with parsed arguments.\<close>

definition main ::
  "('t, 'v::linorder, 'm, 'a) env \<Rightarrow> args \<Rightarrow> ('v, 'a) fsys \<Rightarrow> (error + ('v, 'm, 'a) run) option" where
  "main env a w =
     (let metric_fn = metric_object env (metric a) in
      case get_dataset env a w of
        Inl e \<Rightarrow> Some (Inl e)
      | Inr ds \<Rightarrow>
          let index_name =
                (case df_index_name ds of
                   None \<Rightarrow> ''index''
                 | Some n \<Rightarrow> if n = [] then ''index'' else n)
          in (case (if \<not> path_exists w (path_save_dir a)
                    then makedirs (path_save_dir a) w else Inr w) of
                Inl e \<Rightarrow> Some (Inl e)
              | Inr w1 \<Rightarrow>
                  let indices = sample_indices a ds in
                  (case main_loop env a metric_fn index_name ds indices
                          (List.enumerate 1 indices)
                          \<lparr>fs = w1, entries = [], model = None, flushed = []\<rparr> of
                     Inl e \<Rightarrow> Some (Inl e)
                   | Inr st \<Rightarrow>
                       (case save_args_as_json (path_save_dir a) a (fs st) of
                          None \<Rightarrow> None
                        | Some (Inl e) \<Rightarrow> Some (Inl e)
                        | Some (Inr w2) \<Rightarrow> Some (Inr (st\<lparr>fs := w2\<rparr>))))))"

section \<open>Parser defaults and a small run\<close>

text \<open>The arguments \<^verbatim>\<open>add_parser_arguments\<close> gives a command line that names only
  model references.\<close>

definition default_args :: "string list \<Rightarrow> args" where
  "default_args pmd =
     \<lparr>path_model_dir = pmd, add_sigmoid = False, dataset = None, dataset_kwargs = [],
      gpu_ids = 0, idx_sel = None, metric = ''fnet.metrics.corr_coef'', n_images = - 1,
      no_prediction = False, no_signal = False, no_target = False,
      path_save_dir = ''predictions'', path_tif = None\<rparr>"

text \<open>Collaborators for evaluating the script on small inputs: tensors, arrays, models
  and metric values carry no information, the dataset named \<^verbatim>\<open>demo\<close> has the labels 1
  and 2 and no targets, a \<^verbatim>\<open>TiffDataset\<close> numbers its paths from 0, and every
  prediction has one channel.\<close>

definition demo_dataset :: "unit dataset" where
  "demo_dataset =
     \<lparr>df_index = [1, 2], df_index_name = None,
      loc = (\<lambda>i. if i = 1 \<or> i = 2 then Some ((), None) else None)\<rparr>"

definition demo_env :: "(unit, unit, unit, unit) env" where
  "demo_env =
     \<lparr>dataset_object = (\<lambda>s. if s = ''demo'' then Some (\<lambda>kw. demo_dataset) else None),
      metric_object = (\<lambda>s t p. ()),
      files_from_dir = (\<lambda>w p. []),
      TiffDataset = (\<lambda>ps. \<lparr>df_index = map int [0..<length ps], df_index_name = None,
                             loc = (\<lambda>i. if 0 \<le> i \<and> i < int (length ps)
                                         then Some ((), None) else None)\<rparr>),
      load_model = (\<lambda>p g. ()),
      predict_piecewise = (\<lambda>m s tta. ()),
      sigmoid = (\<lambda>t. t),
      size0 = (\<lambda>t. 1),
      numpy_at = (\<lambda>t i. ()),
      retries = 3\<rparr>"

text \<open>A file system with the working directory \<^verbatim>\<open>/work\<close> and nothing in it.\<close>

definition demo_world :: "(unit, unit) fsys" where
  "demo_world = \<lparr>cwd = ''/work'', files = Map.empty, dirs = {[''work'']}\<rparr>"

text \<open>The tables of the spec's merge example: the identifier \<^verbatim>\<open>a\<close> with \<^verbatim>\<open>x\<close> = 1
  and \<^verbatim>\<open>y\<close> = 2 in the old table and with \<^verbatim>\<open>x\<close> = 9 in the new batch; a batch whose
  columns are out of order; a table of the samples 1 and 2 and a batch in which the
  sample 1 comes twice; and a file system that holds a table at
  \<^verbatim>\<open>predictions/predictions.csv\<close>.\<close>

definition demo_old :: "(string, int) frame" where
  "demo_old =
     \<lparr>rows = [(''a'', (\<lambda>c. if c = ''x'' then Some 1 else if c = ''y'' then Some 2 else None))],
      columns = [''x'', ''y'']\<rparr>"

definition demo_new :: "(string, int) frame" where
  "demo_new =
     \<lparr>rows = [(''a'', (\<lambda>c. if c = ''x'' then Some 9 else None))],
      columns = [''x'']\<rparr>"

definition demo_unsorted :: "(string, int) frame" where
  "demo_unsorted =
     \<lparr>rows = [(''b'', (\<lambda>c. if c \<in> {''path_signal'', ''m.a'', ''Z''} then Some 0 else None))],
      columns = [''path_signal'', ''m.a'', ''Z'']\<rparr>"

definition demo_keyed :: "(int, int) frame" where
  "demo_keyed =
     \<lparr>rows = [(1, (\<lambda>c. if c = ''x'' then Some 10 else None)),
              (2, (\<lambda>c. if c = ''x'' then Some 20 else None))],
      columns = [''x'']\<rparr>"

definition demo_repeated :: "(int, int) frame" where
  "demo_repeated =
     \<lparr>rows = [(1, (\<lambda>c. if c = ''x'' then Some 11 else None)),
              (1, (\<lambda>c. if c = ''x'' then Some 12 else None))],
      columns = [''x'']\<rparr>"

definition demo_world_with :: "('i, 'c) frame \<Rightarrow> ('i, 'c, unit) world" where
  "demo_world_with t =
     \<lparr>cwd = ''/work'',
      files = [[''work'', ''predictions'', ''predictions.csv''] \<mapsto> Csv t],
      dirs = {[''work''], [''work'', ''predictions'']}\<rparr>"

text \<open>A file system whose output directory already holds a snapshot under the default
  name.\<close>

definition demo_world_snapshot :: "(unit, unit) fsys" where
  "demo_world_snapshot =
     \<lparr>cwd = ''/work'',
      files = [[''work'', ''predictions'', ''predict_options.json''] \<mapsto> Json (default_args [''m0''])],
      dirs = {[''work''], [''work'', ''predictions'']}\<rparr>"



section \<open>Facts about splitting\<close>

lemma str_split_not_Nil [simp]: "str_split sep s \<noteq> []"
  by (induction s) (auto split: list.splits)

lemma length_str_split: "length (str_split sep s) = Suc (count_list s sep)"
  by (induction s) (auto split: list.splits)

lemma str_split_no_sep: "sep \<notin> set s \<Longrightarrow> str_split sep s = [s]"
  by (induction s) auto

lemma str_split_append:
  "sep \<notin> set a \<Longrightarrow> str_split sep (a @ sep # b) = a # str_split sep b"
  by (induction a) auto

lemma str_split_pieces: "p \<in> set (str_split sep s) \<Longrightarrow> sep \<notin> set p"
  by (induction s arbitrary: p) (auto split: if_splits list.splits)

lemma str_join_split: "str_join [sep] (str_split sep s) = s"
proof (induction s)
  case Nil
  show ?case by simp
next
  case (Cons c cs)
  show ?case
  proof (cases "c = sep")
    case True
    with Cons show ?thesis
      by (cases "str_split sep cs") auto
  next
    case False
    obtain p ps where sp: "str_split sep cs = p # ps"
      by (cases "str_split sep cs") auto
    with Cons False show ?thesis
      by (cases ps) auto
  qed
qed

section \<open>Facts about paths\<close>

lemma str_split_append_sep:
  "str_split sep (a @ sep # b) = str_split sep a @ str_split sep b"
proof (induction a)
  case Nil
  show ?case by simp
next
  case (Cons c a)
  obtain p ps where "str_split sep a = p # ps"
    by (cases "str_split sep a") auto
  with Cons show ?case by simp
qed

lemma norm_parts_append:
  "norm_parts acc (xs @ ys) = norm_parts (norm_parts acc xs) ys"
  by (induction xs arbitrary: acc) auto

lemma path_join_assoc:
  assumes "rel \<noteq> []" and "hd rel \<noteq> CHR ''/''"
  shows "path_join wd (path_join d rel) = path_join (path_join wd d) rel"
  using assms by (cases d) (auto simp: path_join_def)

lemma split_path_join:
  assumes "rel \<noteq> []" and "hd rel \<noteq> CHR ''/''"
  shows "norm_parts acc (str_split CHR ''/'' (path_join x rel)) =
         norm_parts (norm_parts acc (str_split CHR ''/'' x)) (str_split CHR ''/'' rel)"
proof (cases "x = []")
  case True
  with assms show ?thesis by (simp add: path_join_def)
next
  case False
  show ?thesis
  proof (cases "last x = CHR ''/''")
    case True
    with False have x: "x = butlast x @ [CHR ''/'']"
      by (metis append_butlast_last_id)
    have "path_join x rel = butlast x @ CHR ''/'' # rel"
      using assms True False x by (simp add: path_join_def)
    moreover have "str_split CHR ''/'' x = str_split CHR ''/'' (butlast x) @ [[]]"
      using str_split_append_sep [of "CHR ''/''" "butlast x" "[]"] x by simp
    ultimately show ?thesis
      by (simp add: str_split_append_sep norm_parts_append)
  next
    case True': False
    with False assms have "path_join x rel = x @ CHR ''/'' # rel"
      by (simp add: path_join_def)
    then show ?thesis
      by (simp add: str_split_append_sep norm_parts_append)
  qed
qed

lemma abs_parts_join:
  assumes "rel \<noteq> []" and "hd rel \<noteq> CHR ''/''"
  shows "abs_parts wd (path_join d rel) = norm_parts (abs_parts wd d) (str_split CHR ''/'' rel)"
  using assms by (simp add: abs_parts_def path_join_assoc split_path_join)

lemma abs_parts_join_simple:
  assumes "simple_name nm"
  shows "abs_parts wd (path_join d nm) = abs_parts wd d @ [nm]"
proof -
  from assms have "nm \<noteq> []" "hd nm \<noteq> CHR ''/''"
    by (auto simp: simple_name_def) (metis list.set_sel(1))
  from abs_parts_join [OF this] assms show ?thesis
    by (simp add: str_split_no_sep simple_name_def)
qed

lemma common_prefix_append [simp]: "common_prefix xs (xs @ ys) = xs"
  by (induction xs) auto

section \<open>Facts about decimal numerals\<close>

lemma digit_char:
  assumes "d < 10"
  shows "''0123456789'' ! d \<in> set ''0123456789''" and "digit_val (''0123456789'' ! d) = d"
    and "''0123456789'' ! d \<noteq> CHR ''.''" and "''0123456789'' ! d \<noteq> CHR ''/''"
    and "''0123456789'' ! d \<noteq> CHR ''-''"
proof -
  from assms have "d \<in> {0, 1, 2, 3, 4, 5, 6, 7, 8, 9}"
    by auto
  then show "''0123456789'' ! d \<in> set ''0123456789''" and "digit_val (''0123456789'' ! d) = d"
    and "''0123456789'' ! d \<noteq> CHR ''.''" and "''0123456789'' ! d \<noteq> CHR ''/''"
    and "''0123456789'' ! d \<noteq> CHR ''-''"
    by (auto simp: digit_val_def)
qed

lemma digits_of_nat_chars: "set (digits_of_nat n) \<subseteq> set ''0123456789''"
proof (induction n rule: digits_of_nat.induct)
  case (1 n)
  show ?case
  proof (cases "n < 10")
    case True
    then show ?thesis
      using digit_char(1) [of n] by (subst digits_of_nat.simps) simp
  next
    case False
    with 1 digit_char(1) [of "n mod 10"] show ?thesis
      by (subst digits_of_nat.simps) simp
  qed
qed

lemma digits_of_nat_not_Nil: "digits_of_nat n \<noteq> []"
  by (subst digits_of_nat.simps) simp

lemma isdigit_digits_of_nat: "isdigit (digits_of_nat n)"
  unfolding isdigit_def
  using digits_of_nat_chars [of n] digits_of_nat_not_Nil [of n]
  by blast

lemma nat_of_digits_snoc: "nat_of_digits (s @ [c]) = 10 * nat_of_digits s + digit_val c"
  by (simp add: nat_of_digits_def)

lemma nat_of_digits_of_nat: "nat_of_digits (digits_of_nat n) = n"
proof (induction n rule: digits_of_nat.induct)
  case (1 n)
  show ?case
  proof (cases "n < 10")
    case True
    then show ?thesis
      using digit_char(2) [of n] by (subst digits_of_nat.simps) (simp add: nat_of_digits_def)
  next
    case False
    with 1 digit_char(2) [of "n mod 10"] show ?thesis
      by (subst digits_of_nat.simps) (simp add: nat_of_digits_snoc)
  qed
qed

lemma py_int_digits: "py_int (digits_of_nat n) = Inr (int n)"
  by (simp add: py_int_def isdigit_digits_of_nat nat_of_digits_of_nat)

lemma py_str_nat: "py_str (int n) = digits_of_nat n"
  by (simp add: py_str_def)

lemma digits_of_nat_inj:
  assumes "digits_of_nat m = digits_of_nat n"
  shows "m = n"
proof -
  have "nat_of_digits (digits_of_nat m) = nat_of_digits (digits_of_nat n)"
    using assms by simp
  then show ?thesis
    by (simp add: nat_of_digits_of_nat)
qed

lemma digits_no_dot: "CHR ''.'' \<notin> set (digits_of_nat n)"
proof
  assume "CHR ''.'' \<in> set (digits_of_nat n)"
  with digits_of_nat_chars [of n] have "CHR ''.'' \<in> set ''0123456789''"
    by blast
  then show False by simp
qed

lemma digits_no_slash: "CHR ''/'' \<notin> set (digits_of_nat n)"
proof
  assume "CHR ''/'' \<in> set (digits_of_nat n)"
  with digits_of_nat_chars [of n] have "CHR ''/'' \<in> set ''0123456789''"
    by blast
  then show False by simp
qed

lemma digits_of_nat_small: "n < 10 \<Longrightarrow> digits_of_nat n = [''0123456789'' ! n]"
  by (subst digits_of_nat.simps) simp

section \<open>Facts about the file system\<close>

lemma resolve_files_update [simp]: "resolve (w\<lparr>files := fl\<rparr>) p = resolve w p"
  by (simp add: resolve_def)

section \<open>Model reference parser: results\<close>

text \<open>
  Claim C5. A reference without separator parses to that location with no flags and the
  location's base name as display name. A reference with one separator parses to the part
  before it as location, the comma-split of the part after it as flags, in order, and
  the base name joined with the flags by dots as display name. A reference with two or
  more separators is a configuration error.
\<close>

theorem parse_model_spec:
  "(CHR '':'' \<notin> set lc \<longrightarrow>
      parse_model lc = Inr \<lparr>path = lc, options = [], name = basename lc\<rparr>)
   \<and> (CHR '':'' \<notin> set lc \<and> CHR '':'' \<notin> set fl \<longrightarrow>
      parse_model (lc @ '':'' @ fl) =
        Inr \<lparr>path = lc, options = str_split CHR '','' fl,
             name = str_join ''.'' (basename lc # str_split CHR '','' fl)\<rparr>)
   \<and> (2 \<le> count_list s CHR '':'' \<longrightarrow>
      parse_model s = Inl (ValueError ''Multiple \":\" in specified model''))"
  by (simp add: parse_model_def Let_def str_split_no_sep str_split_append length_str_split)

theorem parse_model_spec_witness:
  "CHR '':'' \<notin> set ''models/a'' \<and> CHR '':'' \<notin> set ''flag1,flag2''
   \<and> 2 \<le> count_list ''models/a:flag1:flag2'' CHR '':''
   \<and> parse_model ''models/a'' = Inr \<lparr>path = ''models/a'', options = [], name = ''a''\<rparr>
   \<and> parse_model ''models/a:flag1,flag2'' =
        Inr \<lparr>path = ''models/a'', options = [''flag1'', ''flag2''], name = ''a.flag1.flag2''\<rparr>
   \<and> parse_model ''models/a:flag1:flag2'' = Inl (ValueError ''Multiple \":\" in specified model'')"
  using parse_model_spec [of "''models/a''" "''flag1,flag2''" "''models/a:flag1:flag2''"]
  by (simp add: basename_def)

text \<open>
  Claim C10. A reference that ends with the separator has one flag, the empty string, and
  its display name is the location's base name followed by a dot.
\<close>

theorem parse_model_trailing_separator:
  "CHR '':'' \<notin> set lc \<Longrightarrow>
     parse_model (lc @ '':'') =
       Inr \<lparr>path = lc, options = [[]], name = basename lc @ ''.''\<rparr>"
  by (simp add: parse_model_def Let_def str_split_append)

theorem parse_model_trailing_separator_witness:
  "CHR '':'' \<notin> set ''models/a'' \<and>
   parse_model ''models/a:'' = Inr \<lparr>path = ''models/a'', options = [''''], name = ''a.''\<rparr>"
  using parse_model_trailing_separator [of "''models/a''"]
  by (simp add: basename_def)

section \<open>Dataset resolver: results\<close>

text \<open>
  Claim C8. When the configuration names both a dataset factory and a path, and when it
  names neither, the dataset resolver raises the configuration error, and \<^verbatim>\<open>main\<close>
  ends with that error: the resolver runs before the output directory is made and before
  the loop.
\<close>

theorem get_dataset_exclusive:
  "((dataset a \<noteq> None \<and> path_tif a \<noteq> None) \<or> (dataset a = None \<and> path_tif a = None)) \<longrightarrow>
     get_dataset env a w = Inl (ValueError ''Must specify one input source type'')
     \<and> main env a w = Some (Inl (ValueError ''Must specify one input source type''))"
  by (auto simp: get_dataset_def main_def)

theorem get_dataset_exclusive_witness:
  "get_dataset demo_env ((default_args [''m''])\<lparr>dataset := Some ''demo'', path_tif := Some ''x.tif''\<rparr>)
      demo_world = Inl (ValueError ''Must specify one input source type'')
   \<and> main demo_env ((default_args [''m''])\<lparr>dataset := Some ''demo'', path_tif := Some ''x.tif''\<rparr>)
      demo_world = Some (Inl (ValueError ''Must specify one input source type''))
   \<and> get_dataset demo_env (default_args [''m'']) demo_world
      = Inl (ValueError ''Must specify one input source type'')
   \<and> main demo_env (default_args [''m'']) demo_world
      = Some (Inl (ValueError ''Must specify one input source type''))"
  using get_dataset_exclusive [of "(default_args [''m''])\<lparr>dataset := Some ''demo'', path_tif := Some ''x.tif''\<rparr>" demo_env demo_world]
    get_dataset_exclusive [of "default_args [''m'']" demo_env demo_world]
  by (simp add: default_args_def)

section \<open>Sample indices: results\<close>

text \<open>
  Claim C7. With a positive cap the indices of the run are the first cap-many elements of
  the selected or natural index sequence, in their order (the whole sequence when it is
  shorter); with a cap of zero or less they are the whole sequence. The loop of
  \<^verbatim>\<open>main\<close> runs over this list, which is fixed before the first sample.
\<close>

theorem sample_indices_prefix:
  "(0 < n_images a \<longrightarrow>
      sample_indices a ds = take (nat (n_images a)) (case idx_sel a of Some sel \<Rightarrow> sel | None \<Rightarrow> df_index ds)
      \<and> prefix (sample_indices a ds) (case idx_sel a of Some sel \<Rightarrow> sel | None \<Rightarrow> df_index ds)
      \<and> length (sample_indices a ds) =
          min (nat (n_images a)) (length (case idx_sel a of Some sel \<Rightarrow> sel | None \<Rightarrow> df_index ds)))
   \<and> (n_images a \<le> 0 \<longrightarrow>
      sample_indices a ds = (case idx_sel a of Some sel \<Rightarrow> sel | None \<Rightarrow> df_index ds))"
  by (auto simp: sample_indices_def slice_to_def take_is_prefix)

theorem sample_indices_prefix_witness:
  "sample_indices ((default_args [''m''])\<lparr>idx_sel := Some [3, 1, 4, 1, 5], n_images := 3\<rparr>) demo_dataset
     = [3, 1, 4]
   \<and> sample_indices ((default_args [''m''])\<lparr>idx_sel := Some [3, 1, 4, 1, 5], n_images := 0\<rparr>) demo_dataset
     = [3, 1, 4, 1, 5]
   \<and> sample_indices ((default_args [''m''])\<lparr>n_images := 1\<rparr>) demo_dataset = [1]"
  using sample_indices_prefix [of "(default_args [''m''])\<lparr>idx_sel := Some [3, 1, 4, 1, 5], n_images := 3\<rparr>" demo_dataset]
   sample_indices_prefix [of "(default_args [''m''])\<lparr>idx_sel := Some [3, 1, 4, 1, 5], n_images := 0\<rparr>" demo_dataset]
   sample_indices_prefix [of "(default_args [''m''])\<lparr>n_images := 1\<rparr>" demo_dataset]
  by (simp add: default_args_def demo_dataset_def)

section \<open>Image persister: results\<close>

lemma resolve_dirs_update [simp]: "resolve (w\<lparr>dirs := ds\<rparr>) p = resolve w p"
  by (simp add: resolve_def)

lemma resolve_join_simple:
  "simple_name nm \<Longrightarrow> resolve w (path_join d nm) = resolve w d @ [nm]"
  by (simp add: resolve_def abs_parts_join_simple)

lemma simple_name_tifs [simp]: "simple_name ''tifs''"
  by (simp add: simple_name_def)

lemma relpath_under_root:
  assumes "simple_name nm"
  shows "relpath wd (path_join (path_join root ''tifs'') nm) root = Inr (''tifs/'' @ nm)"
proof -
  have "path_join (path_join root ''tifs'') nm \<noteq> []"
    using assms by (auto simp: path_join_def simple_name_def)
  moreover have "abs_parts wd (path_join (path_join root ''tifs'') nm) = abs_parts wd root @ [''tifs'', nm]"
    using assms by (simp add: abs_parts_join_simple)
  ultimately show ?thesis
    by (simp add: relpath_def Let_def)
qed

lemma resolve_returned_path:
  assumes "simple_name nm"
  shows "resolve w (path_join root (''tifs/'' @ nm)) = resolve w root @ [''tifs'', nm]"
proof -
  have "str_split CHR ''/'' (''tifs/'' @ nm) = [''tifs'', nm]"
    using assms str_split_append [of "CHR ''/''" "''tifs''" nm]
    by (simp add: simple_name_def str_split_no_sep)
  then show ?thesis
    using assms abs_parts_join [of "''tifs/'' @ nm" "cwd w" root]
    by (simp add: resolve_def simple_name_def)
qed

lemma resolve_demo_predictions:
  "resolve demo_world ''predictions'' = [''work'', ''predictions'']"
  by (simp add: resolve_def demo_world_def abs_parts_def path_join_def)

text \<open>
  Claim C4, as the code has it: the fixed subdirectory is \<^verbatim>\<open>tifs\<close>, not
  \<^verbatim>\<open>images\<close>. For every base file name, array and output root such that the
  subdirectory \<^verbatim>\<open>tifs\<close> of the root is a directory or can be created, and the
  destination is not a directory, the image persister succeeds, the subdirectory exists
  afterwards and no directory is lost, the array is stored at
  \<^verbatim>\<open><root>/tifs/<name>\<close> and no other file changes, and the result is
  \<^verbatim>\<open>tifs/<name>\<close>, which joined to the root names the stored file.
\<close>

theorem save_tif_tifs:
  assumes "simple_name fname"
    and "is_dir w (resolve w path_root @ [''tifs''])
         \<or> (\<forall>r \<in> set (prefixes (resolve w path_root @ [''tifs''])). \<not> is_file w r)"
    and "\<not> is_dir w (resolve w path_root @ [''tifs'', fname])"
  shows "\<exists>w'. save_tif fname ar path_root w = Inr (''tifs/'' @ fname, w')
     \<and> is_dir w' (resolve w path_root @ [''tifs''])
     \<and> dirs w \<subseteq> dirs w'
     \<and> files w' = (files w)(resolve w path_root @ [''tifs'', fname] \<mapsto> Tif ar)
     \<and> resolve w' (path_join path_root (''tifs/'' @ fname)) = resolve w path_root @ [''tifs'', fname]"
proof -
  let ?q = "resolve w path_root @ [''tifs'']"
  let ?q2 = "resolve w path_root @ [''tifs'', fname]"
  have q: "resolve w (path_join path_root ''tifs'') = ?q"
    by (simp add: resolve_join_simple)
  have q2: "resolve w (path_join (path_join path_root ''tifs'') fname) = ?q2"
    using assms(1) by (simp add: resolve_join_simple)
  have bl: "butlast ?q2 = ?q"
    by (simp add: butlast_append)
  show ?thesis
  proof (cases "is_dir w ?q")
    case True
    then have "path_exists w (path_join path_root ''tifs'')"
      by (simp add: path_exists_def q)
    then have "save_tif fname ar path_root w =
        Inr (''tifs/'' @ fname, w\<lparr>files := (files w)(?q2 \<mapsto> Tif ar)\<rparr>)"
      using True assms(1,3) q2 bl
      by (simp add: save_tif_def Let_def imsave_def write_file_def relpath_under_root)
    then show ?thesis
      using True resolve_returned_path [OF assms(1), of w path_root]
      by (simp add: is_dir_def resolve_def)
  next
    case False
    with assms(2) have nofile: "\<forall>r \<in> set (prefixes ?q). \<not> is_file w r"
      by blast
    then have "\<not> is_file w ?q"
      by simp
    with False have ne: "\<not> path_exists w (path_join path_root ''tifs'')"
      by (simp add: path_exists_def q)
    let ?w1 = "w\<lparr>dirs := dirs w \<union> set (prefixes ?q)\<rparr>"
    have mk: "makedirs (path_join path_root ''tifs'') w = Inr ?w1"
      using False \<open>\<not> is_file w ?q\<close> nofile by (simp add: makedirs_def q Let_def)
    have nd: "\<not> is_dir ?w1 ?q2"
      using assms(3) by (auto simp: is_dir_def dest: prefix_length_le)
    have pd: "is_dir ?w1 ?q"
      by (simp add: is_dir_def)
    have "save_tif fname ar path_root w =
        Inr (''tifs/'' @ fname, ?w1\<lparr>files := (files w)(?q2 \<mapsto> Tif ar)\<rparr>)"
      using ne mk nd pd assms(1) q2 bl
      by (simp add: save_tif_def Let_def imsave_def write_file_def relpath_under_root resolve_def)
    then show ?thesis
      using resolve_returned_path [OF assms(1), of w path_root]
      by (auto simp: is_dir_def resolve_def)
  qed
qed

theorem save_tif_tifs_witness:
  "simple_name ''1_signal.tif''
   \<and> \<not> is_dir demo_world (resolve demo_world ''predictions'' @ [''tifs'', ''1_signal.tif''])
   \<and> (\<exists>w'. save_tif ''1_signal.tif'' () ''predictions'' demo_world = Inr (''tifs/1_signal.tif'', w')
        \<and> is_dir w' [''work'', ''predictions'', ''tifs'']
        \<and> files w' [''work'', ''predictions'', ''tifs'', ''1_signal.tif''] = Some (Tif ()))"
proof -
  have h1: "simple_name ''1_signal.tif''"
    by (simp add: simple_name_def)
  have h2: "is_dir demo_world (resolve demo_world ''predictions'' @ [''tifs''])
         \<or> (\<forall>r \<in> set (prefixes (resolve demo_world ''predictions'' @ [''tifs''])). \<not> is_file demo_world r)"
    by (simp add: is_file_def demo_world_def)
  have h3: "\<not> is_dir demo_world (resolve demo_world ''predictions'' @ [''tifs'', ''1_signal.tif''])"
    by (simp add: resolve_demo_predictions) (simp add: is_dir_def demo_world_def)
  from save_tif_tifs [OF h1 h2 h3, of "()"] obtain w' where
    w': "save_tif ''1_signal.tif'' () ''predictions'' demo_world = Inr (''tifs/'' @ ''1_signal.tif'', w')"
      "is_dir w' (resolve demo_world ''predictions'' @ [''tifs''])"
      "files w' = (files demo_world)(resolve demo_world ''predictions'' @ [''tifs'', ''1_signal.tif''] \<mapsto> Tif ())"
    by blast
  have r: "save_tif ''1_signal.tif'' () ''predictions'' demo_world = Inr (''tifs/1_signal.tif'', w')
        \<and> is_dir w' [''work'', ''predictions'', ''tifs'']
        \<and> files w' [''work'', ''predictions'', ''tifs'', ''1_signal.tif''] = Some (Tif ())"
    using w' by (simp add: resolve_demo_predictions)
  show ?thesis
    by (rule conjI, rule h1, rule conjI, rule h3, rule exI [of _ w'], rule r)
qed

text \<open>
  Claim C4, as stated, fails: for the signal image of sample 1 under the root
  \<^verbatim>\<open>predictions\<close> the persister returns \<^verbatim>\<open>tifs/1_signal.tif\<close>; afterwards there is
  no directory \<^verbatim>\<open>images\<close> and no file under it.
\<close>

theorem save_tif_images_counterexample:
  "save_tif ''1_signal.tif'' () ''predictions'' demo_world =
     Inr (''tifs/1_signal.tif'',
          \<lparr>cwd = ''/work'',
           files = [[''work'', ''predictions'', ''tifs'', ''1_signal.tif''] \<mapsto> Tif ()],
           dirs = {[''work''], [], [''work'', ''predictions''], [''work'', ''predictions'', ''tifs'']}\<rparr>)
   \<and> ''tifs/1_signal.tif'' \<noteq> ''images/1_signal.tif''"
  apply (simp add: save_tif_def Let_def demo_world_def)
  apply (simp add: path_exists_def resolve_def abs_parts_def path_join_def is_file_def is_dir_def makedirs_def Let_def
      imsave_def write_file_def relpath_def)
  apply auto
  done

section \<open>Run configuration snapshotter: results\<close>

lemma str_split_append_tail:
  "sep \<notin> set b \<Longrightarrow>
     str_split sep (a @ b) = butlast (str_split sep a) @ [last (str_split sep a) @ b]"
proof (induction a)
  case Nil
  then show ?case by (simp add: str_split_no_sep)
next
  case (Cons c a)
  obtain p ps where sp: "str_split sep a = p # ps"
    by (cases "str_split sep a") auto
  with Cons show ?case
    by (cases ps) auto
qed

lemma path_join_rel:
  "b \<noteq> [] \<Longrightarrow> hd b \<noteq> CHR ''/'' \<Longrightarrow> path_join a b = path_join a [] @ b"
  by (simp add: path_join_def)

lemma nth_penultimate: "s \<noteq> [] \<Longrightarrow> (s @ [x]) ! (length (s @ [x]) - 2) = last s"
  by (simp add: nth_append last_conv_nth)

lemma uniquify_path_step:
  assumes "path_exists w p" and "str_split CHR ''.'' p = s @ [x]" and "s \<noteq> []"
    and "(if \<not> isdigit (last s) then ''-1'' else last s) = num" and "py_int num = Inr k"
  shows "uniquify_path w d p =
     uniquify_path w d (path_join d (str_join ''.'' [''predict_options'', py_str (k + 1), ''json'']))"
proof -
  have n: "(s @ [x]) ! (length (s @ [x]) - 2) = last s"
    using assms(3) by (rule nth_penultimate)
  have l: "\<not> length (s @ [x]) < 2"
    using assms(3) by (cases s) simp_all
  show ?thesis
    by (subst uniquify_path.simps)
       (simp only: assms(1,2,4,5) n l Let_def if_True if_False sum.case)
qed

lemma default_json_step:
  assumes "path_exists w (default_json d)"
  shows "uniquify_path w d (default_json d) = uniquify_path w d (numbered_json d 0)"
proof -
  let ?y = "path_join d [] @ ''predict_options''"
  have p: "default_json d = ?y @ CHR ''.'' # ''json''"
    by (simp add: default_json_def path_join_rel [of "''predict_options.json''"])
  have parts: "str_split CHR ''.'' (default_json d) = str_split CHR ''.'' ?y @ [''json'']"
    using str_split_append_sep [of "CHR ''.''" ?y "''json''"] p by simp
  have "last (str_split CHR ''.'' ?y) = last (str_split CHR ''.'' (path_join d [])) @ ''predict_options''"
    by (subst str_split_append_tail) simp_all
  then have nd: "(if \<not> isdigit (last (str_split CHR ''.'' ?y)) then ''-1''
                  else last (str_split CHR ''.'' ?y)) = ''-1''"
    by (simp add: isdigit_def)
  have m1: "py_int ''-1'' = Inr (- 1)"
    by (simp add: py_int_def isdigit_def nat_of_digits_def digit_val_def)
  have "numbered_json d 0 =
      path_join d (str_join ''.'' [''predict_options'', py_str (- 1 + 1), ''json''])"
    by (simp add: numbered_json_def)
  with uniquify_path_step [OF assms parts str_split_not_Nil nd m1, of d]
  show ?thesis by simp
qed

lemma numbered_json_step:
  assumes "path_exists w (numbered_json d k)"
  shows "uniquify_path w d (numbered_json d k) = uniquify_path w d (numbered_json d (Suc k))"
proof -
  let ?y = "path_join d [] @ ''predict_options''"
  have p: "numbered_json d k = (?y @ CHR ''.'' # digits_of_nat k) @ CHR ''.'' # ''json''"
    using path_join_rel [of "str_join ''.'' [''predict_options'', digits_of_nat k, ''json'']" d]
    by (simp add: numbered_json_def py_str_nat)
  have "str_split CHR ''.'' (numbered_json d k) =
      str_split CHR ''.'' (?y @ CHR ''.'' # digits_of_nat k) @ str_split CHR ''.'' ''json''"
    unfolding p by (rule str_split_append_sep)
  also have "str_split CHR ''.'' (?y @ CHR ''.'' # digits_of_nat k) =
      str_split CHR ''.'' ?y @ str_split CHR ''.'' (digits_of_nat k)"
    by (rule str_split_append_sep)
  finally have parts: "str_split CHR ''.'' (numbered_json d k) =
      (str_split CHR ''.'' ?y @ [digits_of_nat k]) @ [''json'']"
    by (simp add: str_split_no_sep digits_no_dot)
  have ne: "str_split CHR ''.'' ?y @ [digits_of_nat k] \<noteq> []"
    by simp
  have nd: "(if \<not> isdigit (last (str_split CHR ''.'' ?y @ [digits_of_nat k])) then ''-1''
             else last (str_split CHR ''.'' ?y @ [digits_of_nat k])) = digits_of_nat k"
    by (simp add: isdigit_digits_of_nat)
  have "numbered_json d (Suc k) =
      path_join d (str_join ''.'' [''predict_options'', py_str (int k + 1), ''json''])"
    by (simp add: numbered_json_def add.commute)
  with uniquify_path_step [OF assms parts ne nd py_int_digits, of d]
  show ?thesis by simp
qed

lemma uniquify_path_free:
  "\<not> path_exists w p \<Longrightarrow> uniquify_path w d p = Some (Inr p)"
  by (subst uniquify_path.simps) simp

lemma uniquify_path_reach:
  assumes "\<forall>j < K. path_exists w (numbered_json d j)" and "\<not> path_exists w (numbered_json d K)"
    and "j \<le> K"
  shows "uniquify_path w d (numbered_json d j) = Some (Inr (numbered_json d K))"
  using assms(3)
proof (induction "K - j" arbitrary: j)
  case 0
  then have "j = K" by simp
  with assms(2) show ?case by (simp add: uniquify_path_free)
next
  case (Suc n)
  then have "j < K" and "n = K - Suc j" and "Suc j \<le> K" by simp_all
  with assms(1) Suc.hyps(1) [of "Suc j"] show ?case
    by (simp add: numbered_json_step)
qed

lemma simple_name_numbered:
  "simple_name (''predict_options.'' @ digits_of_nat k @ ''.json'')"
  using digits_no_slash [of k] by (simp add: simple_name_def)

lemma resolve_numbered_json:
  "resolve w (numbered_json d k) = resolve w d @ [''predict_options.'' @ digits_of_nat k @ ''.json'']"
  using resolve_join_simple [OF simple_name_numbered, of w d k]
  by (simp add: numbered_json_def py_str_nat)

lemma resolve_default_json:
  "resolve w (default_json d) = resolve w d @ [''predict_options.json'']"
  using resolve_join_simple [of "''predict_options.json''" w d]
  by (simp add: default_json_def simple_name_def)

lemma resolve_numbered_json_inj:
  assumes "resolve w (numbered_json d j) = resolve w (numbered_json d k)"
  shows "j = k"
  using assms by (simp add: resolve_numbered_json digits_of_nat_inj)

lemma numbered_json_free:
  assumes "finite (dom (files w))" and "finite (dirs w)"
  shows "\<exists>k. \<not> path_exists w (numbered_json d k)"
proof (rule ccontr)
  assume "\<not> ?thesis"
  then have all: "\<And>k. path_exists w (numbered_json d k)"
    by simp
  have "range (\<lambda>k. resolve w (numbered_json d k)) \<subseteq> dom (files w) \<union> dirs w"
  proof
    fix q
    assume "q \<in> range (\<lambda>k. resolve w (numbered_json d k))"
    then obtain k where q: "q = resolve w (numbered_json d k)"
      by blast
    then have "q \<noteq> []"
      by (simp add: resolve_numbered_json)
    with all [of k] q show "q \<in> dom (files w) \<union> dirs w"
      by (auto simp: path_exists_def is_file_def is_dir_def)
  qed
  with assms have "finite (range (\<lambda>k. resolve w (numbered_json d k)))"
    by (meson finite_UnI finite_subset)
  moreover have "inj (\<lambda>k. resolve w (numbered_json d k))"
    by (rule injI) (rule resolve_numbered_json_inj)
  ultimately have "finite (UNIV :: nat set)"
    by (rule finite_imageD)
  then show False
    by simp
qed

lemma uniquify_path_result:
  assumes "finite (dom (files w))" and "finite (dirs w)"
  shows "\<exists>p. uniquify_path w d (default_json d) = Some (Inr p) \<and> \<not> path_exists w p
     \<and> (if path_exists w (default_json d)
         then \<exists>k. p = numbered_json d k \<and> (\<forall>j < k. path_exists w (numbered_json d j))
         else p = default_json d)"
proof (cases "path_exists w (default_json d)")
  case False
  then show ?thesis
    by (simp add: uniquify_path_free)
next
  case True
  define K where "K = (LEAST k. \<not> path_exists w (numbered_json d k))"
  from numbered_json_free [OF assms] have free: "\<not> path_exists w (numbered_json d K)"
    unfolding K_def by (rule LeastI_ex)
  have below: "\<forall>j < K. path_exists w (numbered_json d j)"
    unfolding K_def using not_less_Least by blast
  have "uniquify_path w d (default_json d) = Some (Inr (numbered_json d K))"
    using uniquify_path_reach [OF below free, of 0] by (simp add: default_json_step [OF True])
  with True free below show ?thesis
    by auto
qed

lemma not_exists_butlast:
  assumes "\<not> path_exists w p"
  shows "\<not> is_dir w (resolve w p)" and "files w (resolve w p) = None"
  using assms by (simp_all add: path_exists_def is_file_def)

lemma save_args_as_json_once:
  assumes "finite (dom (files w))" and "finite (dirs w)" and "is_dir w (resolve w d)"
  shows "\<exists>p. \<not> path_exists w p
     \<and> save_args_as_json d a w = Some (Inr (w\<lparr>files := (files w)(resolve w p \<mapsto> Json a)\<rparr>))
     \<and> (if path_exists w (default_json d)
         then \<exists>k. p = numbered_json d k \<and> (\<forall>j < k. path_exists w (numbered_json d j))
         else p = default_json d)"
proof -
  from uniquify_path_result [OF assms(1,2), of d] obtain p where
    u: "uniquify_path w d (default_json d) = Some (Inr p)" and ne: "\<not> path_exists w p"
    and ch: "if path_exists w (default_json d)
         then \<exists>k. p = numbered_json d k \<and> (\<forall>j < k. path_exists w (numbered_json d j))
         else p = default_json d"
    by blast
  from ch have "butlast (resolve w p) = resolve w d"
    by (auto simp: resolve_numbered_json resolve_default_json split: if_splits)
  with assms(3) not_exists_butlast(1) [OF ne]
  have "write_file p (Json a) w = Inr (w\<lparr>files := (files w)(resolve w p \<mapsto> Json a)\<rparr>)"
    by (simp add: write_file_def Let_def)
  with u have "save_args_as_json d a w = Some (Inr (w\<lparr>files := (files w)(resolve w p \<mapsto> Json a)\<rparr>))"
    by (simp add: save_args_as_json_def default_json_def)
  with ne ch show ?thesis
    by blast
qed

lemma resolve_demo_snapshot:
  "resolve demo_world_snapshot ''predictions'' = [''work'', ''predictions'']"
  by (simp add: resolve_def demo_world_snapshot_def abs_parts_def path_join_def)

text \<open>
  Claim C9. In a file system with finitely many files and directories whose output
  directory exists, the snapshotter returns, twice in a row: each time it writes to a path
  that did not exist before, so every file that was there, the first snapshot included,
  keeps its content, and the two snapshots are two different files. The path is the
  default name when that is unused, and otherwise the numbered name with the least
  number (counting from 0) that is unused.
\<close>

theorem save_args_as_json_never_overwrites:
  assumes "finite (dom (files w))" and "finite (dirs w)" and "is_dir w (resolve w d)"
  shows "\<exists>p1 p2 w1 w2.
       save_args_as_json d a1 w = Some (Inr w1) \<and> save_args_as_json d a2 w1 = Some (Inr w2)
     \<and> \<not> path_exists w p1 \<and> \<not> path_exists w1 p2 \<and> resolve w p1 \<noteq> resolve w p2
     \<and> w1 = w\<lparr>files := (files w)(resolve w p1 \<mapsto> Json a1)\<rparr>
     \<and> w2 = w\<lparr>files := (files w)(resolve w p1 \<mapsto> Json a1, resolve w p2 \<mapsto> Json a2)\<rparr>
     \<and> (\<forall>q. is_file w q \<longrightarrow> files w1 q = files w q \<and> files w2 q = files w q)
     \<and> (if path_exists w (default_json d)
         then \<exists>k. p1 = numbered_json d k \<and> (\<forall>j < k. path_exists w (numbered_json d j))
         else p1 = default_json d)
     \<and> (\<exists>k. p2 = numbered_json d k \<and> (\<forall>j < k. path_exists w1 (numbered_json d j)))"
proof -
  from save_args_as_json_once [OF assms, of a1] obtain p1 where
    ne1: "\<not> path_exists w p1"
    and s1: "save_args_as_json d a1 w = Some (Inr (w\<lparr>files := (files w)(resolve w p1 \<mapsto> Json a1)\<rparr>))"
    and ch1: "if path_exists w (default_json d)
         then \<exists>k. p1 = numbered_json d k \<and> (\<forall>j < k. path_exists w (numbered_json d j))
         else p1 = default_json d"
    by blast
  define w1 where "w1 = w\<lparr>files := (files w)(resolve w p1 \<mapsto> Json a1)\<rparr>"
  have r1 [simp]: "resolve w1 p = resolve w p" for p
    by (simp add: w1_def)
  have mono: "path_exists w p \<Longrightarrow> path_exists w1 p" for p
    by (simp add: path_exists_def is_file_def is_dir_def w1_def)
  have ex1: "path_exists w1 p1"
    by (simp add: path_exists_def is_file_def) (simp add: w1_def)
  have def1: "path_exists w1 (default_json d)"
    using ch1 ex1 mono by (auto split: if_splits)
  have "finite (dom (files w1))" "finite (dirs w1)" "is_dir w1 (resolve w1 d)"
    using assms by (simp_all add: w1_def is_dir_def)
  from save_args_as_json_once [OF this, of a2] def1 obtain p2 where
    ne2: "\<not> path_exists w1 p2"
    and s2: "save_args_as_json d a2 w1 = Some (Inr (w1\<lparr>files := (files w1)(resolve w1 p2 \<mapsto> Json a2)\<rparr>))"
    and ch2: "\<exists>k. p2 = numbered_json d k \<and> (\<forall>j < k. path_exists w1 (numbered_json d j))"
    by auto
  have neq: "resolve w p1 \<noteq> resolve w p2"
    using ne2 by (auto simp: path_exists_def is_file_def w1_def)
  have w2: "w1\<lparr>files := (files w1)(resolve w1 p2 \<mapsto> Json a2)\<rparr> =
      w\<lparr>files := (files w)(resolve w p1 \<mapsto> Json a1, resolve w p2 \<mapsto> Json a2)\<rparr>"
    by (simp add: w1_def)
  have n1: "files w (resolve w p1) = None"
    by (rule not_exists_butlast(2) [OF ne1])
  have n2: "files w (resolve w p2) = None"
    using not_exists_butlast(2) [OF ne2] neq by (simp add: w1_def)
  have keep: "\<forall>q. is_file w q \<longrightarrow>
      files (w\<lparr>files := (files w)(resolve w p1 \<mapsto> Json a1)\<rparr>) q = files w q \<and>
      files (w\<lparr>files := (files w)(resolve w p1 \<mapsto> Json a1, resolve w p2 \<mapsto> Json a2)\<rparr>) q = files w q"
    using n1 n2 by (auto simp: is_file_def)
  show ?thesis
    apply (rule exI [of _ p1], rule exI [of _ p2], rule exI [of _ w1])
    apply (rule exI [of _ "w\<lparr>files := (files w)(resolve w p1 \<mapsto> Json a1, resolve w p2 \<mapsto> Json a2)\<rparr>"])
    using s1 s2 ne1 ne2 neq w2 keep ch1 ch2
    apply (simp only: w1_def [symmetric])
    apply (intro conjI)
             apply (simp_all add: w1_def)
    done
qed

theorem save_args_as_json_never_overwrites_witness:
  "finite (dom (files demo_world_snapshot)) \<and> finite (dirs demo_world_snapshot)
   \<and> is_dir demo_world_snapshot (resolve demo_world_snapshot ''predictions'')
   \<and> (\<exists>w1 w2.
        save_args_as_json ''predictions'' (default_args [''m1'']) demo_world_snapshot = Some (Inr w1)
      \<and> save_args_as_json ''predictions'' (default_args [''m2'']) w1 = Some (Inr w2)
      \<and> files w2 [''work'', ''predictions'', ''predict_options.json''] = Some (Json (default_args [''m0'']))
      \<and> files w2 [''work'', ''predictions'', ''predict_options.0.json''] = Some (Json (default_args [''m1'']))
      \<and> files w2 [''work'', ''predictions'', ''predict_options.1.json''] = Some (Json (default_args [''m2'']))
      \<and> dom (files w2) = {[''work'', ''predictions'', ''predict_options.json''],
            [''work'', ''predictions'', ''predict_options.0.json''],
            [''work'', ''predictions'', ''predict_options.1.json'']})"
proof -
  let ?w = demo_world_snapshot
  let ?d = "''predictions''"
  have h1: "finite (dom (files ?w))" and h2: "finite (dirs ?w)"
    by (simp_all add: demo_world_snapshot_def)
  have h3: "is_dir ?w (resolve ?w ?d)"
    by (simp add: resolve_demo_snapshot) (simp add: is_dir_def demo_world_snapshot_def)
  have ex: "path_exists ?w (default_json ?d)"
    by (simp add: path_exists_def resolve_default_json resolve_demo_snapshot is_file_def)
       (simp add: demo_world_snapshot_def)
  have r0: "resolve ?w (numbered_json ?d 0) = [''work'', ''predictions'', ''predict_options.0.json'']"
    and r1: "resolve ?w (numbered_json ?d (Suc 0)) = [''work'', ''predictions'', ''predict_options.1.json'']"
    by (simp_all add: resolve_numbered_json resolve_demo_snapshot digits_of_nat_small)
  have n0: "\<not> path_exists ?w (numbered_json ?d 0)"
    by (simp add: path_exists_def r0 is_file_def is_dir_def) (simp add: demo_world_snapshot_def)
  from save_args_as_json_never_overwrites [OF h1 h2 h3, of "default_args [''m1'']" "default_args [''m2'']"]
  obtain p1 p2 w1 w2 k1 k2 where
    s1: "save_args_as_json ?d (default_args [''m1'']) ?w = Some (Inr w1)"
    and s2: "save_args_as_json ?d (default_args [''m2'']) w1 = Some (Inr w2)"
    and ne2: "\<not> path_exists w1 p2"
    and w1: "w1 = ?w\<lparr>files := (files ?w)(resolve ?w p1 \<mapsto> Json (default_args [''m1'']))\<rparr>"
    and w2: "w2 = ?w\<lparr>files := (files ?w)(resolve ?w p1 \<mapsto> Json (default_args [''m1'']),
                resolve ?w p2 \<mapsto> Json (default_args [''m2'']))\<rparr>"
    and p1: "p1 = numbered_json ?d k1" and b1: "\<forall>j < k1. path_exists ?w (numbered_json ?d j)"
    and p2: "p2 = numbered_json ?d k2" and b2: "\<forall>j < k2. path_exists w1 (numbered_json ?d j)"
    using ex by auto
  have k1: "k1 = 0"
    using b1 n0 by (cases k1) auto
  have rw1: "resolve w1 p = resolve ?w p" for p
    by (simp add: w1)
  have fw1: "files w1 = (files ?w)([''work'', ''predictions'', ''predict_options.0.json'']
        \<mapsto> Json (default_args [''m1'']))" and dw1: "dirs w1 = dirs ?w"
    using r0 by (simp_all add: w1 p1 k1)
  have e0: "path_exists w1 (numbered_json ?d 0)"
    by (simp add: path_exists_def is_file_def rw1 r0 fw1)
  have n1: "\<not> path_exists w1 (numbered_json ?d (Suc 0))"
    by (simp add: path_exists_def is_file_def is_dir_def rw1 r1 fw1 dw1)
       (simp add: demo_world_snapshot_def)
  have "k2 \<noteq> 0"
  proof
    assume "k2 = 0"
    with ne2 p2 e0 show False by simp
  qed
  moreover have "\<not> Suc 0 < k2"
    using b2 n1 by auto
  ultimately have k2: "k2 = Suc 0"
    by simp
  have f: "files w2 [''work'', ''predictions'', ''predict_options.json''] = Some (Json (default_args [''m0'']))
      \<and> files w2 [''work'', ''predictions'', ''predict_options.0.json''] = Some (Json (default_args [''m1'']))
      \<and> files w2 [''work'', ''predictions'', ''predict_options.1.json''] = Some (Json (default_args [''m2'']))
      \<and> dom (files w2) = {[''work'', ''predictions'', ''predict_options.json''],
            [''work'', ''predictions'', ''predict_options.0.json''],
            [''work'', ''predictions'', ''predict_options.1.json'']}"
    unfolding w2 p1 p2 k1 k2 r0 r1 by (auto simp: demo_world_snapshot_def)
  show ?thesis
    by (rule conjI, rule h1, rule conjI, rule h2, rule conjI, rule h3,
        rule exI [of _ w1], rule exI [of _ w2], rule conjI, rule s1, rule conjI, rule s2, rule f)
qed

section \<open>Result table accumulator: results\<close>

text \<open>In this file system a write has one outcome, so retrying it changes nothing.\<close>

lemma retry_if_oserror_eq: "retry_if_oserror n f w = f w"
  by (induction n) (auto split: sum.splits error.splits)

lemma save_csv_existing:
  assumes "files w (resolve w p) = Some (Csv df_old)"
    and "\<not> is_dir w (resolve w p)" and "is_dir w (butlast (resolve w p))"
  shows "save_csv n p df w =
     Inr (w\<lparr>files := (files w)(resolve w p \<mapsto> Csv (sort_index_axis1 (combine_first df df_old)))\<rparr>)"
  using assms
  by (simp add: save_csv_def path_exists_def is_file_def read_csv_def retry_if_oserror_eq
      to_csv_def write_file_def Let_def)


lemma save_csv_Inr:
  assumes "save_csv n p df w = Inr w'"
  shows "\<not> is_dir w (resolve w p) \<and> is_dir w (butlast (resolve w p)) \<and>
     (\<exists>t. w' = w\<lparr>files := (files w)(resolve w p \<mapsto> Csv (sort_index_axis1 t))\<rparr> \<and>
        (if path_exists w p then \<exists>df_old. files w (resolve w p) = Some (Csv df_old) \<and> t = combine_first df df_old
         else t = df))"
  using assms
  by (auto simp: save_csv_def path_exists_def retry_if_oserror_eq read_csv_def is_file_def
      to_csv_def write_file_def Let_def split: if_splits sum.splits option.splits content.splits)

lemma sort_remdups_absorb:
  fixes xs :: "'x::linorder list"
  assumes "set xs \<subseteq> set ys" and "distinct ys"
  shows "sort (remdups (xs @ sort ys)) = sort ys"
proof (rule sorted_distinct_set_unique)
  show "set (sort (remdups (xs @ sort ys))) = set (sort ys)" using assms by auto
qed (use assms in simp_all)

subsection \<open>Rows of a label and the cells of a merged table\<close>

lemma map_of_rows_at:
  "map_of rs i = (case rows_at i rs of [] \<Rightarrow> None | r # _ \<Rightarrow> Some r)"
  by (induction rs) (auto simp: rows_at_def)

lemma rows_at_Nil_iff: "rows_at l rs = [] \<longleftrightarrow> l \<notin> fst ` set rs"
  by (induction rs) (auto simp: rows_at_def)

lemma join_rows_Nil_iff: "join_rows ls rs = [] \<longleftrightarrow> ls = [] \<and> rs = []"
  by (cases ls; cases rs) (simp_all add: join_rows_def)

lemma hd_join_rows:
  "(case join_rows ls rs of [] \<Rightarrow> None | r # _ \<Rightarrow> Some r) =
     (case ls of
        [] \<Rightarrow> (case rs of [] \<Rightarrow> None | s # _ \<Rightarrow> Some s)
      | r # _ \<Rightarrow> (case rs of [] \<Rightarrow> Some r | s # _ \<Rightarrow> Some (first_notna r s)))"
  by (cases ls; cases rs) (simp_all add: join_rows_def)

lemma map_of_labelled: "map_of (map (Pair l) xs) i = (if i = l then (case xs of [] \<Rightarrow> None | x # _ \<Rightarrow> Some x) else None)"
  by (cases xs) (auto simp: map_of_eq_None_iff image_iff)

lemma map_of_groups:
  "map_of (concat (map (\<lambda>l. map (Pair l) (g l)) ls)) i =
     (if i \<in> set ls then (case g i of [] \<Rightarrow> None | x # _ \<Rightarrow> Some x) else None)"
proof (induction ls)
  case Nil
  show ?case by simp
next
  case (Cons l ls)
  show ?case
    by (cases "g l") (auto simp: Cons map_of_labelled map_add_def split: option.splits list.splits)
qed

lemma map_of_aligned:
  assumes "map fst xs = map fst ys"
  shows "map_of (map (\<lambda>(p, q). (fst p, f (snd p) (snd q))) (zip xs ys)) i =
     (case map_of xs i of None \<Rightarrow> None
      | Some r \<Rightarrow> (case map_of ys i of None \<Rightarrow> None | Some s \<Rightarrow> Some (f r s)))"
  using assms
proof (induction xs arbitrary: ys)
  case Nil
  then show ?case by simp
next
  case (Cons x xs)
  obtain a r where x: "x = (a, r)"
    by (cases x)
  from Cons.prems x obtain s ys' where ys: "ys = (a, s) # ys'" and tl: "map fst xs = map fst ys'"
    by (cases ys) auto
  show ?case
    using Cons.IH [OF tl] by (auto simp: x ys split: option.splits)
qed

lemma map_of_None_index: "map_of rs i = None \<longleftrightarrow> i \<notin> set (map fst rs)"
  by (simp add: map_of_eq_None_iff)

lemma map_of_combine_first:
  "map_of (rows (combine_first df other)) i =
     (case map_of (rows df) i of
        None \<Rightarrow> map_of (rows other) i
      | Some r \<Rightarrow> (case map_of (rows other) i of None \<Rightarrow> Some r | Some s \<Rightarrow> Some (first_notna r s)))"
proof (cases "index df = index other")
  case True
  then have eq: "map fst (rows df) = map fst (rows other)"
    by (simp add: index_def)
  then have "map_of (rows df) i = None \<longleftrightarrow> map_of (rows other) i = None"
    by (simp add: map_of_None_index)
  with map_of_aligned [OF eq, of first_notna i] True show ?thesis
    by (auto simp: combine_first_def split: option.splits)
next
  case False
  have "i \<in> set (sort (remdups (index df @ index other))) \<longleftrightarrow>
      rows_at i (rows df) \<noteq> [] \<or> rows_at i (rows other) \<noteq> []"
    by (auto simp: index_def rows_at_Nil_iff)
  with False show ?thesis
    by (simp add: combine_first_def map_of_groups hd_join_rows)
       (auto simp: map_of_rows_at split: list.splits)
qed


lemma set_index_combine_first:
  "set (index (combine_first df other)) = set (index df) \<union> set (index other)"
proof -
  have "set (map fst (rows t)) = {i. map_of (rows t) i \<noteq> None}" for t :: "('a, 'b) frame"
    by (auto simp: map_of_None_index)
  then show ?thesis
    by (auto simp: index_def map_of_combine_first split: option.splits)
qed

lemma index_sort_index_axis1 [simp]: "index (sort_index_axis1 df) = index df"
  and rows_sort_index_axis1 [simp]: "rows (sort_index_axis1 df) = rows df"
  and cell_sort_index_axis1 [simp]: "cell (sort_index_axis1 df) = cell df"
  and columns_sort_index_axis1 [simp]: "columns (sort_index_axis1 df) = sort (columns df)"
  by (simp_all add: sort_index_axis1_def index_def cell_def fun_eq_iff)

subsection \<open>Merging twice\<close>

lemma first_notna_absorb [simp]:
  "first_notna r (first_notna r s) = first_notna r s" "first_notna r r = r"
  by (auto simp: first_notna_def fun_eq_iff split: option.splits)

lemma aligned_again:
  assumes "\<And>r s. f r (f r s) = f r s"
  shows "map (\<lambda>(p, q). (fst p, f (snd p) (snd q)))
           (zip xs (map (\<lambda>(p, q). (fst p, f (snd p) (snd q))) (zip xs ys))) =
         map (\<lambda>(p, q). (fst p, f (snd p) (snd q))) (zip xs ys)"
proof (induction xs arbitrary: ys)
  case Nil
  show ?case by simp
next
  case (Cons x xs)
  show ?case
    by (cases ys) (simp_all add: Cons assms)
qed

lemma aligned_self:
  assumes "map fst xs = map fst ts"
    and "\<And>p q. (p, q) \<in> set (zip xs ts) \<Longrightarrow> f (snd p) (snd q) = snd q"
  shows "map (\<lambda>(p, q). (fst p, f (snd p) (snd q))) (zip xs ts) = ts"
  using assms
proof (induction xs arbitrary: ts)
  case Nil
  then show ?case by simp
next
  case (Cons x xs)
  from Cons.prems(1) obtain t ts' where ts: "ts = t # ts'" and h: "fst x = fst t"
    and tl: "map fst xs = map fst ts'"
    by (cases ts) auto
  have "f (snd x) (snd t) = snd t"
    using Cons.prems(2) [of x t] by (simp add: ts)
  moreover have "map (\<lambda>(p, q). (fst p, f (snd p) (snd q))) (zip xs ts') = ts'"
    using Cons.IH [OF tl] Cons.prems(2) by (simp add: ts)
  ultimately show ?case
    using h by (simp add: ts)
qed

lemma zip_same_label:
  assumes "map fst xs = map fst ts" and "(p, q) \<in> set (zip xs ts)"
  shows "fst p = fst q"
  using assms
proof (induction xs arbitrary: ts)
  case Nil
  then show ?case by simp
next
  case (Cons x xs)
  then show ?case
    by (cases ts) auto
qed

lemma rows_at_labelled: "rows_at l (map (Pair k) xs) = (if l = k then xs else [])"
  by (induction xs) (auto simp: rows_at_def)

lemma rows_at_append: "rows_at l (xs @ ys) = rows_at l xs @ rows_at l ys"
  by (simp add: rows_at_def)

lemma rows_at_groups:
  assumes "distinct ls"
  shows "rows_at l (concat (map (\<lambda>l. map (Pair l) (g l)) ls)) = (if l \<in> set ls then g l else [])"
  using assms
  by (induction ls) (auto simp: rows_at_append rows_at_labelled, simp_all add: rows_at_def)

lemma rows_at_distinct:
  assumes "distinct (map fst rs)"
  shows "rows_at l rs = [] \<or> (\<exists>r. rows_at l rs = [r])"
  using assms
proof (induction rs)
  case Nil
  show ?case by (simp add: rows_at_def)
next
  case (Cons x rs)
  show ?case
  proof (cases "fst x = l")
    case True
    with Cons.prems have "l \<notin> fst ` set rs"
      by auto
    then have "rows_at l rs = []"
      by (simp add: rows_at_Nil_iff)
    with True show ?thesis
      by (simp add: rows_at_def)
  next
    case False
    with Cons show ?thesis
      by (simp add: rows_at_def)
  qed
qed

lemma join_rows_absorb:
  assumes "ls = [] \<or> (\<exists>r. ls = [r])"
  shows "join_rows ls (join_rows ls rs) = join_rows ls rs"
  using assms by (cases rs) (auto simp: join_rows_def)

lemma join_rows_member:
  assumes "t \<in> set (join_rows [r] rs)"
  shows "first_notna r t = t"
  using assms by (cases rs) (auto simp: join_rows_def)

lemma rows_at_member: "r \<in> set (rows_at l rs) \<longleftrightarrow> (l, r) \<in> set rs"
  by (induction rs) (auto simp: rows_at_def)

lemma combine_first_rows_idem:
  fixes df :: "('i::linorder, 'c) frame"
  assumes "distinct (index df)" and "rows t = rows (combine_first df old)"
  shows "rows (combine_first df t) = rows t"
proof (cases "index df = index old")
  case True
  then have t: "rows t = map (\<lambda>(p, q). (fst p, first_notna (snd p) (snd q))) (zip (rows df) (rows old))"
    using assms(2) by (simp add: combine_first_def)
  have "map fst (rows t) = map fst (rows df)"
    unfolding t using True
    by (simp add: index_def map_fst_zip_take zip_map_fst_snd map_equality_iff o_def case_prod_unfold)
  then have "index df = index t"
    by (simp add: index_def)
  then show ?thesis
    by (simp add: combine_first_def) (simp add: t aligned_again)
next
  case False
  let ?S = "sort (remdups (index df @ index old))"
  let ?g = "\<lambda>l. join_rows (rows_at l (rows df)) (rows_at l (rows old))"
  have t: "rows t = concat (map (\<lambda>l. map (Pair l) (?g l)) ?S)"
    using assms(2) False by (simp add: combine_first_def)
  have dS: "distinct ?S"
    by simp
  have at: "rows_at l (rows t) = (if l \<in> set ?S then ?g l else [])" for l
    unfolding t by (rule rows_at_groups [OF dS])
  have one: "rows_at l (rows df) = [] \<or> (\<exists>r. rows_at l (rows df) = [r])" for l
    using assms(1) by (intro rows_at_distinct) (simp add: index_def)
  have it: "set (index t) = set (index df) \<union> set (index old)"
  proof -
    have "index t = index (combine_first df old)"
      using assms(2) by (simp add: index_def)
    then show ?thesis
      by (simp add: set_index_combine_first)
  qed
  show ?thesis
  proof (cases "index df = index t")
    case True
    have "first_notna (snd p) (snd q) = snd q" if pq: "(p, q) \<in> set (zip (rows df) (rows t))" for p q
    proof -
      from True have "map fst (rows df) = map fst (rows t)"
        by (simp add: index_def)
      from zip_same_label [OF this pq] have l: "fst p = fst q" .
      from pq have p: "p \<in> set (rows df)" and q: "q \<in> set (rows t)"
        by (auto dest: set_zip_leftD set_zip_rightD)
      from p have "snd p \<in> set (rows_at (fst p) (rows df))"
        by (simp add: rows_at_member)
      with one [of "fst p"] have df1: "rows_at (fst p) (rows df) = [snd p]"
        by auto
      from q l have "snd q \<in> set (rows_at (fst p) (rows t))"
        by (simp add: rows_at_member)
      then have "snd q \<in> set (?g (fst p))"
        by (simp add: at split: if_splits)
      then show ?thesis
        by (simp add: df1 join_rows_member)
    qed
    with True show ?thesis
      by (simp add: combine_first_def) (rule aligned_self, simp_all add: index_def)
  next
    case ne: False
    have S: "sort (remdups (index df @ index t)) = ?S"
      by (rule sorted_distinct_set_unique) (auto simp: it)
    have g: "join_rows (rows_at l (rows df)) (rows_at l (rows t)) = ?g l" if "l \<in> set ?S" for l
      using that one [of l] by (simp add: at join_rows_absorb)
    have m: "map (\<lambda>l. map (Pair l) (join_rows (rows_at l (rows df)) (rows_at l (rows t)))) ?S =
        map (\<lambda>l. map (Pair l) (?g l)) ?S"
      by (rule map_cong [OF refl]) (simp only: g)
    have "rows (combine_first df t) =
        concat (map (\<lambda>l. map (Pair l) (join_rows (rows_at l (rows df)) (rows_at l (rows t))))
          (sort (remdups (index df @ index t))))"
      using ne by (simp add: combine_first_def)
    also have "\<dots> = concat (map (\<lambda>l. map (Pair l) (?g l)) ?S)"
      by (simp only: S m)
    finally show ?thesis
      by (simp only: t)
  qed
qed

lemma combine_first_rows_self:
  fixes df :: "('i::linorder, 'c) frame"
  assumes "rows t = rows df"
  shows "rows (combine_first df t) = rows t"
proof -
  have "index df = index t"
    using assms by (simp add: index_def)
  moreover have "map (\<lambda>(p, q). (fst p, first_notna (snd p) (snd q))) (zip xs xs) = xs"
    for xs :: "('i \<times> (string \<Rightarrow> 'c option)) list"
    by (induction xs) auto
  ultimately show ?thesis
    by (simp add: combine_first_def assms)
qed

subsection \<open>The table at the destination\<close>

lemma resolve_demo_table:
  "resolve (demo_world_with t) ''predictions/predictions.csv'' =
     [''work'', ''predictions'', ''predictions.csv'']"
  by (simp add: resolve_def demo_world_with_def abs_parts_def path_join_def)

lemma save_csv_demo:
  "save_csv n ''predictions/predictions.csv'' df (demo_world_with old) =
     Inr (demo_world_with (sort_index_axis1 (combine_first df old)))"
proof -
  let ?w = "demo_world_with old"
  let ?p = "''predictions/predictions.csv''"
  have h1: "files ?w (resolve ?w ?p) = Some (Csv old)"
    by (simp add: resolve_demo_table) (simp add: demo_world_with_def)
  have h2: "\<not> is_dir ?w (resolve ?w ?p)"
    by (simp add: resolve_demo_table) (simp add: demo_world_with_def is_dir_def)
  have h3: "is_dir ?w (butlast (resolve ?w ?p))"
    by (simp add: resolve_demo_table) (simp add: demo_world_with_def is_dir_def)
  show ?thesis
    unfolding save_csv_existing [OF h1 h2 h3]
    by (simp add: resolve_demo_table) (simp add: demo_world_with_def)
qed

lemma demo_world_with_inj: "demo_world_with s = demo_world_with t \<Longrightarrow> s = t"
proof -
  assume "demo_world_with s = demo_world_with t"
  then have "files (demo_world_with s) [''work'', ''predictions'', ''predictions.csv''] =
      files (demo_world_with t) [''work'', ''predictions'', ''predictions.csv'']"
    by simp
  then show "s = t"
    by (simp add: demo_world_with_def)
qed

lemma distinct_columns_DataFrame_set_index:
  "DataFrame_set_index es index_name = Inr df \<Longrightarrow> distinct (columns df)"
  by (auto simp: DataFrame_set_index_def split: if_splits)

lemma index_DataFrame_set_index:
  "DataFrame_set_index es index_name = Inr df \<Longrightarrow> index df = map (\<lambda>e. map_of e index_name) es"
  by (auto simp: DataFrame_set_index_def index_def o_def split: if_splits)



text \<open>
  Claim C2, for batches in which no sample identifier repeats. A successful run of the
  accumulator followed by a second run with the same batch (its identifiers distinct, and
  its column labels distinct, as those of every frame built from rows are) against the
  same destination succeeds and leaves the file system as the first run left it. The
  table at the destination may hold repeated identifiers.
\<close>

theorem save_csv_idempotent:
  fixes df :: "('i::linorder, 'c) frame"
  assumes "save_csv n p df w = Inr w1" and "distinct (columns df)" and "distinct (index df)"
  shows "save_csv n p df w1 = Inr w1"
proof -
  from save_csv_Inr [OF assms(1)] obtain t where
    nd: "\<not> is_dir w (resolve w p)" and pd: "is_dir w (butlast (resolve w p))"
    and w1: "w1 = w\<lparr>files := (files w)(resolve w p \<mapsto> Csv (sort_index_axis1 t))\<rparr>"
    and t: "if path_exists w p then \<exists>df_old. files w (resolve w p) = Some (Csv df_old) \<and> t = combine_first df df_old
         else t = df"
    by blast
  have cols: "distinct (columns t) \<and> set (columns df) \<subseteq> set (columns t)"
    using t assms(2) by (auto simp: combine_first_def split: if_splits)
  have rws: "rows (combine_first df (sort_index_axis1 t)) = rows (sort_index_axis1 t)"
  proof (cases "path_exists w p")
    case True
    with t obtain df_old where "t = combine_first df df_old"
      by auto
    then have "rows (sort_index_axis1 t) = rows (combine_first df df_old)"
      by simp
    from combine_first_rows_idem [OF assms(3) this] show ?thesis .
  next
    case False
    with t have "rows (sort_index_axis1 t) = rows df"
      by simp
    from combine_first_rows_self [OF this] show ?thesis .
  qed
  have idem: "sort_index_axis1 (combine_first df (sort_index_axis1 t)) = sort_index_axis1 t"
  proof (rule frame.equality)
    show "rows (sort_index_axis1 (combine_first df (sort_index_axis1 t))) = rows (sort_index_axis1 t)"
      using rws by simp
    show "columns (sort_index_axis1 (combine_first df (sort_index_axis1 t))) = columns (sort_index_axis1 t)"
      using sort_remdups_absorb [of "columns df" "columns t"] cols
      by (simp add: combine_first_def)
    show "frame.more (sort_index_axis1 (combine_first df (sort_index_axis1 t))) = frame.more (sort_index_axis1 t)"
      by simp
  qed
  have f1: "files w1 (resolve w1 p) = Some (Csv (sort_index_axis1 t))"
    by (simp add: w1)
  have "\<not> is_dir w1 (resolve w1 p)" "is_dir w1 (butlast (resolve w1 p))"
    using nd pd by (simp_all add: w1 is_dir_def)
  from save_csv_existing [OF f1 this, of n df]
  show ?thesis by (simp add: idem) (simp add: w1)
qed

theorem save_csv_idempotent_witness:
  "save_csv 3 ''predictions/predictions.csv'' demo_new (demo_world_with demo_old)
     = Inr (demo_world_with (sort_index_axis1 (combine_first demo_new demo_old)))
   \<and> distinct (columns demo_new) \<and> distinct (index demo_new)
   \<and> save_csv 3 ''predictions/predictions.csv'' demo_new
        (demo_world_with (sort_index_axis1 (combine_first demo_new demo_old)))
     = Inr (demo_world_with (sort_index_axis1 (combine_first demo_new demo_old)))"
proof -
  have s: "save_csv 3 ''predictions/predictions.csv'' demo_new (demo_world_with demo_old)
     = Inr (demo_world_with (sort_index_axis1 (combine_first demo_new demo_old)))"
    by (rule save_csv_demo)
  have d: "distinct (columns demo_new)" and i: "distinct (index demo_new)"
    by (simp_all add: demo_new_def index_def)
  show ?thesis
    by (rule conjI, rule s, rule conjI, rule d, rule conjI, rule i, rule save_csv_idempotent [OF s d i])
qed

text \<open>
  Claim C2, as stated for every batch, fails. The batch in which the sample 1 comes twice
  (as with \<^verbatim>\<open>--idx_sel 1 1\<close>), merged into the table of the samples 1 and 2, gives
  a table of three rows; merged again into that table it gives five rows, since every row
  of the sample in the batch is paired with every row of it in the table.
\<close>

theorem save_csv_repeated_label_counterexample:
  "save_csv 3 ''predictions/predictions.csv'' demo_repeated (demo_world_with demo_keyed)
     = Inr (demo_world_with (sort_index_axis1 (combine_first demo_repeated demo_keyed)))
   \<and> index (sort_index_axis1 (combine_first demo_repeated demo_keyed)) = [1, 1, 2]
   \<and> save_csv 3 ''predictions/predictions.csv'' demo_repeated
        (demo_world_with (sort_index_axis1 (combine_first demo_repeated demo_keyed)))
     = Inr (demo_world_with (sort_index_axis1 (combine_first demo_repeated
              (sort_index_axis1 (combine_first demo_repeated demo_keyed)))))
   \<and> index (sort_index_axis1 (combine_first demo_repeated
              (sort_index_axis1 (combine_first demo_repeated demo_keyed)))) = [1, 1, 1, 1, 2]
   \<and> save_csv 3 ''predictions/predictions.csv'' demo_repeated
        (demo_world_with (sort_index_axis1 (combine_first demo_repeated demo_keyed)))
     \<noteq> Inr (demo_world_with (sort_index_axis1 (combine_first demo_repeated demo_keyed)))"
proof -
  let ?T1 = "sort_index_axis1 (combine_first demo_repeated demo_keyed)"
  let ?T2 = "sort_index_axis1 (combine_first demo_repeated ?T1)"
  have i1: "index ?T1 = [1, 1, 2]"
    by (simp add: index_def combine_first_def demo_repeated_def demo_keyed_def rows_at_def join_rows_def)
  have r1: "rows ?T1 = rows (combine_first demo_repeated demo_keyed)"
    by simp
  have i2: "index ?T2 = [1, 1, 1, 1, 2]"
    using i1
    by (simp add: index_def combine_first_def [of demo_repeated ?T1] rows_at_def join_rows_def)
       (simp add: combine_first_def demo_repeated_def demo_keyed_def rows_at_def join_rows_def index_def)
  have s1: "save_csv 3 ''predictions/predictions.csv'' demo_repeated (demo_world_with demo_keyed)
     = Inr (demo_world_with ?T1)"
    by (rule save_csv_demo)
  have s2: "save_csv 3 ''predictions/predictions.csv'' demo_repeated (demo_world_with ?T1)
     = Inr (demo_world_with ?T2)"
    by (rule save_csv_demo)
  have "?T2 \<noteq> ?T1"
  proof
    assume "?T2 = ?T1"
    then have "index ?T2 = index ?T1"
      by (rule arg_cong)
    then show False
      unfolding i1 i2 by simp
  qed
  then have ne: "save_csv 3 ''predictions/predictions.csv'' demo_repeated (demo_world_with ?T1)
     \<noteq> Inr (demo_world_with ?T1)"
    unfolding s2 by (auto dest: demo_world_with_inj)
  show ?thesis
    by (rule conjI, rule s1, rule conjI, rule i1, rule conjI, rule s2, rule conjI, rule i2, rule ne)
qed

text \<open>
  Claim C6. Whenever the accumulator returns, the destination holds a table whose column
  labels are in ascending lexicographic order, and no other file has changed.
\<close>

theorem save_csv_columns_sorted:
  assumes "save_csv n p df w = Inr w'"
  shows "\<exists>t. files w' (resolve w' p) = Some (Csv t) \<and> sorted (columns t)
     \<and> (\<forall>q. q \<noteq> resolve w' p \<longrightarrow> files w' q = files w q)"
  using save_csv_Inr [OF assms]
  by (auto simp: sort_index_axis1_def)

theorem save_csv_columns_sorted_witness:
  "save_csv 3 ''predictions/predictions.csv'' demo_unsorted (demo_world_with demo_old)
     = Inr (demo_world_with (sort_index_axis1 (combine_first demo_unsorted demo_old)))
   \<and> (\<exists>t. files (demo_world_with (sort_index_axis1 (combine_first demo_unsorted demo_old)))
            (resolve (demo_world_with (sort_index_axis1 (combine_first demo_unsorted demo_old)))
               ''predictions/predictions.csv'') = Some (Csv t)
        \<and> sorted (columns t)
        \<and> columns t = [''Z'', ''m.a'', ''path_signal'', ''x'', ''y''])"
proof -
  let ?T = "sort_index_axis1 (combine_first demo_unsorted demo_old)"
  have s: "save_csv 3 ''predictions/predictions.csv'' demo_unsorted (demo_world_with demo_old)
     = Inr (demo_world_with ?T)"
    by (rule save_csv_demo)
  from save_csv_columns_sorted [OF s] obtain t where
    t: "files (demo_world_with ?T) (resolve (demo_world_with ?T) ''predictions/predictions.csv'')
          = Some (Csv t)" "sorted (columns t)"
    by blast
  from t(1) have "t = ?T"
    by (simp add: resolve_demo_table) (simp add: demo_world_with_def)
  then have c: "columns t = [''Z'', ''m.a'', ''path_signal'', ''x'', ''y'']"
    by (simp add: combine_first_def demo_unsorted_def demo_old_def)
  show ?thesis
    by (rule conjI, rule s, rule exI [of _ t], intro conjI, rule t(1), rule t(2), rule c)
qed

section \<open>Inference orchestrator: results\<close>

text \<open>The calls of the accumulator during the loop: after a sample whose count is a
  multiple of 8 or whose index equals the last index of the run, each time with all rows
  so far. When the last index occurs once in the run, these are the multiples of 8 and
  the final sample, as for a run of ten samples.\<close>

lemma main_loop_flush_counts:
  assumes "main_loop env a mf nm ds indices steps st = Inr st'"
  shows "map fst (flushed st') =
     map fst (flushed st) @
     map fst (filter (\<lambda>(count, idx). count mod 8 = 0 \<or> idx = last indices) steps)"
  using assms
proof (induction steps arbitrary: st)
  case Nil
  then show ?case by simp
next
  case (Cons r steps)
  obtain count idx where r: "r = (count, idx)"
    by (cases r)
  from Cons.prems obtain m e w where
    ps: "process_sample env a mf nm ds idx (model st) (fs st) = Inr (m, e, w)"
    by (auto simp: r split: sum.splits)
  show ?case
  proof (cases "count mod 8 = 0 \<or> idx = last indices")
    case True
    with Cons.prems ps obtain w' where
      "main_loop env a mf nm ds indices steps
         \<lparr>fs = w', entries = entries st @ [e], model = m,
          flushed = flushed st @ [(count, entries st @ [e])]\<rparr> = Inr st'"
      by (auto simp: r Let_def split: sum.splits)
    from Cons.IH [OF this] True show ?thesis
      by (simp add: r)
  next
    case False
    with Cons.prems ps have
      "main_loop env a mf nm ds indices steps
         \<lparr>fs = w, entries = entries st @ [e], model = m, flushed = flushed st\<rparr> = Inr st'"
      by (auto simp: r Let_def split: sum.splits)
    from Cons.IH [OF this] False show ?thesis
      by (simp add: r)
  qed
qed


lemma enumerate_filter_counts:
  assumes "\<And>k. k < length xs \<Longrightarrow> Q (n + k) (xs ! k) = R (n + k)"
  shows "map fst (filter (\<lambda>(c, i). Q c i) (List.enumerate n xs)) = filter R [n..<n + length xs]"
  using assms
proof (induction xs arbitrary: n)
  case Nil
  show ?case by simp
next
  case (Cons x xs)
  have "Q (Suc n + k) (xs ! k) = R (Suc n + k)" if "k < length xs" for k
    using Cons.prems [of "Suc k"] that by simp
  from Cons.IH [of "Suc n", OF this]
  have ih: "map fst (filter (\<lambda>(c, i). Q c i) (List.enumerate (Suc n) xs)) =
      filter R [Suc n..<Suc n + length xs]" .
  have up: "[n..<n + length (x # xs)] = n # [Suc n..<Suc n + length xs]"
    by (subst upt_rec) simp
  have q: "Q n x = R n"
    using Cons.prems [of 0] by simp
  show ?case
    unfolding up using ih q by simp
qed

lemma last_unique_position:
  assumes "last xs \<notin> set (butlast xs)" and "k < length xs"
  shows "xs ! k = last xs \<longleftrightarrow> Suc k = length xs"
proof
  assume eq: "xs ! k = last xs"
  show "Suc k = length xs"
  proof (rule ccontr)
    assume "Suc k \<noteq> length xs"
    with assms(2) have "k < length (butlast xs)"
      by simp
    then have "butlast xs ! k \<in> set (butlast xs)"
      by (rule nth_mem)
    moreover have "butlast xs ! k = xs ! k"
      using \<open>k < length (butlast xs)\<close> by (rule nth_butlast)
    ultimately show False
      using eq assms(1) by simp
  qed
next
  assume "Suc k = length xs"
  then show "xs ! k = last xs"
    by (metis diff_Suc_1 last_conv_nth length_0_conv nat.distinct(1))
qed

lemma flush_counts_last_unique:
  assumes "last xs \<notin> set (butlast xs)"
  shows "map fst (filter (\<lambda>(count, idx). count mod 8 = 0 \<or> idx = last xs) (List.enumerate 1 xs)) =
     filter (\<lambda>count. count mod 8 = 0 \<or> count = length xs) [1..<Suc (length xs)]"
  using enumerate_filter_counts [of xs "\<lambda>c i. c mod 8 = 0 \<or> i = last xs" 1
      "\<lambda>c. c mod 8 = 0 \<or> c = length xs"]
    last_unique_position [OF assms]
  by simp

lemma main_loop_flush_schedule:
  assumes "main_loop env a mf nm ds indices (List.enumerate 1 indices) st = Inr st'"
    and "last indices \<notin> set (butlast indices)"
  shows "map fst (flushed st') =
     map fst (flushed st) @
     filter (\<lambda>count. count mod 8 = 0 \<or> count = length indices) [1..<Suc (length indices)]"
  using main_loop_flush_counts [OF assms(1)] flush_counts_last_unique [OF assms(2)]
  by simp

lemma flush_schedule_ten:
  "filter (\<lambda>count. count mod 8 = 0 \<or> count = 10) [1..<11] = [8, 10 :: nat]"
  by (simp add: upt_conv_Cons)









end
